theory Spec2Isabelle
  imports Complex_Main "HOL-Library.Sublist" "HOL-Library.Char_ord" "HOL-Library.List_Lexorder"
    "HOL-Library.Product_Lexorder"
begin

section \<open>Python strings\<close>

text \<open>
  A Python \<open>str\<close> is modelled as a \<open>string\<close> whose characters are the code points
  0..255.  \<open>str.strip()\<close> removes the characters for which \<open>str.isspace\<close> holds; in that
  range these are TAB, LF, VT, FF, CR, the separators 0x1C..0x1F, the space, NEL (0x85) and
  the no-break space (0xA0).
\<close>

definition isspace :: "char \<Rightarrow> bool" where
  "isspace c = ((of_char c :: nat) \<in> set [9, 10, 11, 12, 13, 28, 29, 30, 31, 32, 133, 160])"

definition lstrip :: "string \<Rightarrow> string" where
  "lstrip s = dropWhile isspace s"

definition rstrip :: "string \<Rightarrow> string" where
  "rstrip s = rev (dropWhile isspace (rev s))"

definition strip :: "string \<Rightarrow> string" where
  "strip s = rstrip (lstrip s)"

text \<open>\<open>sub in s\<close>: \<open>sub\<close> occurs in \<open>s\<close> as a contiguous, case-sensitive substring.\<close>

fun py_in :: "string \<Rightarrow> string \<Rightarrow> bool" where
  "py_in sub [] = (sub = [])"
| "py_in sub (c # cs) = (prefix sub (c # cs) \<or> py_in sub cs)"

text \<open>\<open>s.split(sep)[0]\<close>: the part of \<open>s\<close> before the leftmost occurrence of \<open>sep\<close>,
  all of \<open>s\<close> when \<open>sep\<close> does not occur.\<close>

fun split_first :: "string \<Rightarrow> string \<Rightarrow> string" where
  "split_first sep [] = []"
| "split_first sep (c # cs) = (if prefix sep (c # cs) then [] else c # split_first sep cs)"

section \<open>Errors and numbers\<close>

text \<open>The exceptions the modelled functions can raise.\<close>

datatype py_error = ZeroDivisionError | ValueError | KeyError

text \<open>
  A finite float64 or int64 value is a rational number, and so is an \<open>Amount\<close>.  Comparing
  two such values and taking an absolute value are exact.  What pandas and numpy compute
  from them (the sum of a column, a sum, a difference, a product, a quotient, a rounding)
  is rounded by the library and need not be the exact result.  These operations are
  parameters of the model:
  \<^item> \<open>f_sum\<close> is \<open>Series.sum()\<close> of a non-empty column, \<open>g_sum\<close> the sum of a non-empty
    group in \<open>groupby(...).agg\<close>, both functions of the values in row order;
  \<^item> \<open>f_add\<close>, \<open>f_sub\<close>, \<open>f_mul\<close> are \<open>+\<close>, \<open>-\<close>, \<open>*\<close>, and \<open>f_div\<close> is \<open>/\<close> by a divisor
    that is not zero;
  \<^item> \<open>f_round n\<close> is numpy's rounding to \<open>n\<close> decimals (\<open>DataFrame.round(n)\<close>, and
    \<open>round(x, n)\<close> on a float64);
  \<^item> \<open>f_fmt n\<close> is the decimal number the format \<open>.nf\<close> prints.
  Every statement below that names \<open>ops\<close> holds for all of them.
\<close>

record arith =
  f_sum :: "rat list \<Rightarrow> rat"
  g_sum :: "rat list \<Rightarrow> rat"
  f_add :: "rat \<Rightarrow> rat \<Rightarrow> rat"
  f_sub :: "rat \<Rightarrow> rat \<Rightarrow> rat"
  f_mul :: "rat \<Rightarrow> rat \<Rightarrow> rat"
  f_div :: "rat \<Rightarrow> rat \<Rightarrow> rat"
  f_round :: "nat \<Rightarrow> rat \<Rightarrow> rat"
  f_fmt :: "nat \<Rightarrow> rat \<Rightarrow> rat"

text \<open>The sum of an empty column is 0.\<close>

definition series_sum :: "arith \<Rightarrow> rat list \<Rightarrow> rat" where
  "series_sum ops xs = (if xs = [] then 0 else f_sum ops xs)"

text \<open>
  The arithmetic of the rational numbers, with rounding to the nearest decimal, a tie to
  the even neighbour.  float64 arithmetic gives the same values wherever every operand
  and every intermediate result has an exact binary representation; the examples below
  are chosen so.  \<open>rint\<close> rounds to the nearest integer, \<open>np_round n\<close> scales by \<open>10 ^ n\<close>,
  applies \<open>rint\<close> and scales back, as numpy does.
\<close>

definition rint :: "rat \<Rightarrow> int" where
  "rint x =
     (let f = \<lfloor>x\<rfloor>; d = x - of_int f in
      if d < 1 / 2 then f else if 1 / 2 < d then f + 1 else if even f then f else f + 1)"

definition np_round :: "nat \<Rightarrow> rat \<Rightarrow> rat" where
  "np_round n x = of_int (rint (x * 10 ^ n)) / 10 ^ n"

definition exact :: arith where
  "exact = \<lparr>f_sum = sum_list, g_sum = sum_list, f_add = (+), f_sub = (-), f_mul = (*),
            f_div = (/), f_round = np_round, f_fmt = np_round\<rparr>"

section \<open>Dates and month labels\<close>

text \<open>
  A parsed \<open>Date\<close> is a calendar date; its month is in 1..12 and, a pandas timestamp lying
  between the years 1677 and 2262, its year has four digits.
\<close>

record date =
  year :: nat
  month :: nat
  day :: nat

definition valid_date :: "date \<Rightarrow> bool" where
  "valid_date d = (1 \<le> month d \<and> month d \<le> 12 \<and> 1000 \<le> year d \<and> year d \<le> 9999)"

definition month_names :: "string list" where
  "month_names =
     [''January'', ''February'', ''March'', ''April'', ''May'', ''June'', ''July'',
      ''August'', ''September'', ''October'', ''November'', ''December'']"

definition digit_chars :: string where
  "digit_chars = ''0123456789''"

definition digit :: "nat \<Rightarrow> char" where
  "digit n = digit_chars ! (n mod 10)"

definition isdigit :: "char \<Rightarrow> bool" where
  "isdigit c = (c \<in> set digit_chars)"

definition digit_val :: "char \<Rightarrow> nat" where
  "digit_val c = of_char c - 48"

text \<open>\<open>%Y\<close> and \<open>%m\<close>: the year on four digits, the month on two.\<close>

definition fmt_Y :: "nat \<Rightarrow> string" where
  "fmt_Y y = [digit (y div 1000), digit (y div 100), digit (y div 10), digit y]"

definition fmt_m :: "nat \<Rightarrow> string" where
  "fmt_m m = [digit (m div 10), digit m]"

text \<open>\<open>%B\<close>: the full month name.\<close>

definition fmt_B :: "nat \<Rightarrow> string" where
  "fmt_B m = (if 1 \<le> m \<and> m \<le> 12 then month_names ! (m - 1) else [])"

text \<open>\<open>strftime('%B %Y')\<close> of a date, and \<open>strftime('%Y-%m')\<close> of a timestamp; the
  timestamp of a month label is kept as the pair (year, month), ordered chronologically.\<close>

definition strftime_B_Y :: "date \<Rightarrow> string" where
  "strftime_B_Y d = fmt_B (month d) @ '' '' @ fmt_Y (year d)"

definition strftime_Y_m :: "nat \<times> nat \<Rightarrow> string" where
  "strftime_Y_m t = fmt_Y (fst t) @ ''-'' @ fmt_m (snd t)"

fun index_of :: "'a \<Rightarrow> 'a list \<Rightarrow> nat option" where
  "index_of x [] = None"
| "index_of x (y # ys) = (if x = y then Some 0 else map_option Suc (index_of x ys))"

definition parse_nat :: "string \<Rightarrow> nat" where
  "parse_nat s = foldl (\<lambda>a c. 10 * a + digit_val c) 0 s"

text \<open>
  \<open>pd.to_datetime(s, format='%B %Y')\<close> on the labels \<open>strftime('%B %Y')\<close> writes: a month
  name, one space, four digits.  \<open>None\<close> is the \<open>ValueError\<close> of a string that does not
  parse.  (pandas also accepts other spellings of a month name; no key of a report is one.)
\<close>

definition to_datetime_B_Y :: "string \<Rightarrow> (nat \<times> nat) option" where
  "to_datetime_B_Y s =
     (let name = split_first '' '' s; rest = drop (length name + 1) s in
      case index_of name month_names of
        None \<Rightarrow> None
      | Some i \<Rightarrow>
          if length rest = 4 \<and> list_all isdigit rest then Some (parse_nat rest, i + 1)
          else None)"

section \<open>Record normalisation\<close>

record raw_transaction =
  Date :: date
  Description :: string
  Amount :: rat
  Status :: string
  Category :: string

record transaction = raw_transaction +
  Month :: "nat \<times> nat"
  Year :: nat
  MonthName :: string
  CleanMerchant :: string
  TransactionType :: string

text \<open>\<open>clean_merchant_name\<close>, branch by branch as in the source.\<close>

definition clean_merchant_name :: "string \<Rightarrow> string" where
  "clean_merchant_name desc0 =
     (let desc = strip desc0 in
      if py_in ''UBER EATS'' desc then ''Uber Eats''
      else if py_in ''PAYPAL'' desc then
        (if py_in ''INST XFER'' desc then ''PayPal Transfer'' else ''PayPal'')
      else if py_in ''CAREERBUILDER'' desc then ''CareerBuilder Paycheck''
      else if py_in ''INTEREST PAID'' desc then ''Interest Income''
      else if py_in ''Georgia Departme'' desc then ''Georgia State Tax Refund''
      else if py_in ''IRS  TREAS'' desc \<and> py_in ''TAX REF'' desc then ''Federal Tax Refund''
      else
        (let cleaned = strip (split_first ''***'' desc) in
         if length cleaned > 50 then strip (take 50 cleaned) else cleaned))"

text \<open>The columns \<open>clean_data\<close> adds to a row, then its filter on \<open>Status\<close>.\<close>

definition add_columns :: "raw_transaction \<Rightarrow> transaction" where
  "add_columns r =
     raw_transaction.extend r
       \<lparr>Month = (year (Date r), month (Date r)),
        Year = year (Date r),
        MonthName = strftime_B_Y (Date r),
        CleanMerchant = clean_merchant_name (Description r),
        TransactionType = (if Amount r > 0 then ''Deposit'' else ''Withdrawal'')\<rparr>"

definition clean_data :: "raw_transaction list \<Rightarrow> transaction list" where
  "clean_data df = filter (\<lambda>r. Status r = ''Posted'') (map add_columns df)"

section \<open>Aggregation\<close>

text \<open>
  \<open>df.groupby(key)\<close>: one group per distinct key, the groups in ascending order of the
  key, each group holding its rows in their original order.
\<close>

definition groupby :: "('r \<Rightarrow> 'k::linorder) \<Rightarrow> 'r list \<Rightarrow> ('k \<times> 'r list) list" where
  "groupby key df = map (\<lambda>k. (k, filter (\<lambda>r. key r = k) df)) (sort (remdups (map key df)))"

record stats =
  deposits :: rat
  spending :: rat
  net :: rat
  transaction_count :: nat

text \<open>A dictionary is an association list in insertion order.\<close>

definition calculate_monthly_totals :: "arith \<Rightarrow> transaction list \<Rightarrow> (string \<times> stats) list" where
  "calculate_monthly_totals ops df_posted =
     map (\<lambda>(month, month_df).
            let deposits = series_sum ops (map Amount (filter (\<lambda>r. Amount r > 0) month_df));
                spending = \<bar>series_sum ops (map Amount (filter (\<lambda>r. Amount r < 0) month_df))\<bar>;
                net = f_sub ops deposits spending
            in (month, \<lparr>deposits = deposits, spending = spending, net = net,
                        transaction_count = length month_df\<rparr>))
         (groupby MonthName df_posted)"

text \<open>A row of a month's \<open>merchant_spending\<close> frame: the merchant is its index, \<open>total\<close>
  and \<open>count\<close> its columns.\<close>

record merchant_row =
  merchant :: string
  row_total :: rat
  row_count :: nat

text \<open>
  \<open>sort_values('total', ascending=False)\<close>.  pandas leaves the order of rows with equal
  totals open; the model keeps them in their previous order, and no statement below
  depends on it.
\<close>

definition sort_total_desc :: "merchant_row list \<Rightarrow> merchant_row list" where
  "sort_total_desc rows = sort_key (\<lambda>r. - row_total r) rows"

text \<open>The body of the loop of \<open>create_spending_report\<close> for a month's spending rows: the
  sum and the count per merchant, both rounded (a count is an integer and stays), the
  absolute value of the sum, the sort.\<close>

definition merchant_spending :: "arith \<Rightarrow> transaction list \<Rightarrow> merchant_row list" where
  "merchant_spending ops spending_df =
     sort_total_desc
       (map (\<lambda>(m, g). \<lparr>merchant = m,
                        row_total = \<bar>f_round ops 2 (g_sum ops (map Amount g))\<bar>,
                        row_count = length g\<rparr>)
            (groupby CleanMerchant spending_df))"

definition create_spending_report ::
  "arith \<Rightarrow> transaction list \<Rightarrow> (string \<times> merchant_row list) list" where
  "create_spending_report ops df_posted =
     List.map_filter
       (\<lambda>(month, month_df).
          let spending_df = filter (\<lambda>r. Amount r < 0) month_df in
          if length spending_df = 0 then None
          else Some (month, merchant_spending ops spending_df))
       (groupby MonthName df_posted)"

section \<open>Rendering\<close>

text \<open>A \<open>for\<close> loop that appends one result per item and stops at the first exception.\<close>

fun for_each :: "('a \<Rightarrow> py_error + 'b) \<Rightarrow> 'a list \<Rightarrow> py_error + 'b list" where
  "for_each f [] = Inr []"
| "for_each f (x # xs) =
     (case f x of
        Inl e \<Rightarrow> Inl e
      | Inr y \<Rightarrow> (case for_each f xs of Inl e \<Rightarrow> Inl e | Inr ys \<Rightarrow> Inr (y # ys)))"

definition to_datetime :: "string \<Rightarrow> py_error + (nat \<times> nat)" where
  "to_datetime s = (case to_datetime_B_Y s of None \<Rightarrow> Inl ValueError | Some t \<Rightarrow> Inr t)"

text \<open>\<open>sorted(keys, key=lambda x: pd.to_datetime(x, format='%B %Y'))\<close>: the keys are computed
  first, then the labels are sorted by them, labels with equal keys keeping their order.\<close>

definition sorted_months :: "string list \<Rightarrow> py_error + string list" where
  "sorted_months keys =
     (case for_each to_datetime keys of
        Inl e \<Rightarrow> Inl e
      | Inr ts \<Rightarrow> Inr (map snd (sort_key fst (zip ts keys))))"

text \<open>
  \<open>print_monthly_summary\<close>: what it prints, as data: the rows of the table, the TOTAL row
  and the AVERAGE/MONTH row, each number as it is handed to the format.  The totals start
  at the Python integer 0 and every month is added to them.  With no month they stay the
  integer 0 and \<open>num_months\<close> is the integer 0, so the first division raises
  \<open>ZeroDivisionError\<close> (the table and the TOTAL row are printed before it); with a month,
  the divisor is not zero.
\<close>

record summary_table =
  tbl_rows :: "(string \<times> stats) list"
  tbl_total :: "rat \<times> rat \<times> rat \<times> nat"
  tbl_average :: "rat \<times> rat \<times> rat \<times> rat"

definition print_monthly_summary ::
  "arith \<Rightarrow> (string \<times> stats) list \<Rightarrow> transaction list \<Rightarrow> py_error + summary_table" where
  "print_monthly_summary ops monthly_stats df_posted =
     (case sorted_months (map fst monthly_stats) of
        Inl e \<Rightarrow> Inl e
      | Inr months \<Rightarrow>
          let rows = map (\<lambda>m. (m, the (map_of monthly_stats m))) months;
              total_deposits = foldl (\<lambda>acc (m, st). f_add ops acc (deposits st)) 0 rows;
              total_spending = foldl (\<lambda>acc (m, st). f_add ops acc (spending st)) 0 rows;
              num_months = length monthly_stats
          in if num_months = 0 then Inl ZeroDivisionError
             else Inr \<lparr>tbl_rows = rows,
                       tbl_total = (total_deposits, total_spending,
                                    f_sub ops total_deposits total_spending, length df_posted),
                       tbl_average =
                         (f_div ops total_deposits (of_nat num_months),
                          f_div ops total_spending (of_nat num_months),
                          f_div ops (f_sub ops total_deposits total_spending) (of_nat num_months),
                          f_div ops (of_nat (length df_posted)) (of_nat num_months))\<rparr>)"

text \<open>
  \<open>merchants['total'].sum()\<close> and \<open>(row['total'] / month_total) * 100\<close>.  Dividing one
  numpy number by another never raises: a zero divisor gives \<open>nan\<close> or \<open>inf\<close> (with a
  warning).  \<open>None\<close> stands for such a result, which rounding and formatting keep.
\<close>

definition month_total :: "arith \<Rightarrow> merchant_row list \<Rightarrow> rat" where
  "month_total ops merchants = series_sum ops (map row_total merchants)"

definition percentage :: "arith \<Rightarrow> rat \<Rightarrow> rat \<Rightarrow> rat option" where
  "percentage ops t mt = (if mt = 0 then None else Some (f_mul ops (f_div ops t mt) 100))"

text \<open>
  \<open>print_spending_details\<close>: per month, in chronological order, the header's total, one
  line for each of the first ten merchants and, past ten merchants, the line of the
  others.  A percentage is kept as the format \<open>.1f\<close> prints it.
\<close>

record detail_line =
  l_merchant :: string
  l_total :: rat
  l_count :: nat
  l_percentage :: "rat option"

record others_line =
  o_remaining :: nat
  o_total :: rat
  o_percentage :: "rat option"

record month_section =
  sec_month :: string
  sec_total :: rat
  sec_lines :: "detail_line list"
  sec_others :: "others_line option"

definition print_month :: "arith \<Rightarrow> string \<Rightarrow> merchant_row list \<Rightarrow> month_section" where
  "print_month ops label merchant_data =
     (let mt = month_total ops merchant_data;
          num_to_show = min 10 (length merchant_data)
      in \<lparr>sec_month = label,
          sec_total = mt,
          sec_lines =
            map (\<lambda>row. \<lparr>l_merchant = merchant row, l_total = row_total row,
                         l_count = row_count row,
                         l_percentage =
                           map_option (f_fmt ops 1) (percentage ops (row_total row) mt)\<rparr>)
                (take num_to_show merchant_data),
          sec_others =
            (if length merchant_data > 10 then
               (let remaining = length merchant_data - 10;
                    remaining_total = month_total ops (drop 10 merchant_data)
                in Some \<lparr>o_remaining = remaining, o_total = remaining_total,
                          o_percentage =
                            map_option (f_fmt ops 1) (percentage ops remaining_total mt)\<rparr>)
             else None)\<rparr>)"

definition print_spending_details ::
  "arith \<Rightarrow> (string \<times> merchant_row list) list \<Rightarrow> py_error + month_section list" where
  "print_spending_details ops spending_report =
     (case sorted_months (map fst spending_report) of
        Inl e \<Rightarrow> Inl e
      | Inr months \<Rightarrow>
          Inr (map (\<lambda>m. print_month ops m (the (map_of spending_report m))) months))"

text \<open>
  \<open>export_to_csv\<close>: the rows of the two frames it writes.  A frame built from an empty
  list of rows has no columns, and sorting it by a column raises \<open>KeyError\<close>.  Turning the
  rows into the text of a file is the library's \<open>to_csv\<close> and is not modelled.
\<close>

definition sort_values :: "('r \<Rightarrow> 'k::linorder) \<Rightarrow> 'r list \<Rightarrow> py_error + 'r list" where
  "sort_values col rows = (if rows = [] then Inl KeyError else Inr (sort_key col rows))"

record summary_row =
  s_Month :: string
  s_Deposits :: rat
  s_Spending :: rat
  s_Net :: rat
  s_Transaction_Count :: nat

record details_row =
  d_Month :: string
  d_Merchant :: string
  d_Amount :: rat
  d_Transaction_Count :: nat
  d_Percentage_of_Month :: "rat option"

definition export_monthly_summary :: "(string \<times> stats) list \<Rightarrow> py_error + summary_row list" where
  "export_monthly_summary monthly_stats =
     (case for_each
             (\<lambda>(month, st).
                case to_datetime month of
                  Inl e \<Rightarrow> Inl e
                | Inr month_date \<Rightarrow>
                    Inr \<lparr>s_Month = strftime_Y_m month_date, s_Deposits = deposits st,
                         s_Spending = spending st, s_Net = net st,
                         s_Transaction_Count = transaction_count st\<rparr>)
             monthly_stats of
        Inl e \<Rightarrow> Inl e
      | Inr summary_data \<Rightarrow> sort_values s_Month summary_data)"

definition export_month_details :: "arith \<Rightarrow> string \<Rightarrow> merchant_row list \<Rightarrow> details_row list" where
  "export_month_details ops ym merchants =
     (let mt = month_total ops merchants in
      map (\<lambda>row. \<lparr>d_Month = ym, d_Merchant = merchant row, d_Amount = row_total row,
                   d_Transaction_Count = row_count row,
                   d_Percentage_of_Month =
                     map_option (f_round ops 1) (percentage ops (row_total row) mt)\<rparr>)
          merchants)"

definition export_spending_details ::
  "arith \<Rightarrow> (string \<times> merchant_row list) list \<Rightarrow> py_error + details_row list" where
  "export_spending_details ops spending_report =
     (case for_each
             (\<lambda>(month, merchants).
                case to_datetime month of
                  Inl e \<Rightarrow> Inl e
                | Inr month_date \<Rightarrow>
                    Inr (export_month_details ops (strftime_Y_m month_date) merchants))
             spending_report of
        Inl e \<Rightarrow> Inl e
      | Inr details_data \<Rightarrow> sort_values (\<lambda>r. (d_Month r, - d_Amount r)) (concat details_data))"

definition export_to_csv ::
  "arith \<Rightarrow> (string \<times> stats) list \<Rightarrow> (string \<times> merchant_row list) list
     \<Rightarrow> py_error + (summary_row list \<times> details_row list)" where
  "export_to_csv ops monthly_stats spending_report =
     (case export_monthly_summary monthly_stats of
        Inl e \<Rightarrow> Inl e
      | Inr summary_df \<Rightarrow>
          (case export_spending_details ops spending_report of
             Inl e \<Rightarrow> Inl e
           | Inr details_df \<Rightarrow> Inr (summary_df, details_df)))"

section \<open>The merchant rules as the specification words them\<close>

text \<open>
  The specification describes \<open>cleanMerchant\<close> as an ordered list of pattern rules, each a
  test on the trimmed description with the label it gives, the first matching rule
  deciding.  The last rule is the default: the part before the first \<open>***\<close>, cut to at most
  50 characters, then trimmed.
\<close>

type_synonym rule = "(string \<Rightarrow> bool) \<times> (string \<Rightarrow> string)"

definition default_rule :: "string \<Rightarrow> string" where
  "default_rule desc = strip (take 50 (split_first ''***'' desc))"

definition cleanMerchant_rules :: "rule list" where
  "cleanMerchant_rules =
    [(py_in ''UBER EATS'', \<lambda>_. ''Uber Eats''),
     (py_in ''PAYPAL'', \<lambda>d. if py_in ''INST XFER'' d then ''PayPal Transfer'' else ''PayPal''),
     (py_in ''CAREERBUILDER'', \<lambda>_. ''CareerBuilder Paycheck''),
     (py_in ''INTEREST PAID'', \<lambda>_. ''Interest Income''),
     (py_in ''Georgia Departme'', \<lambda>_. ''Georgia State Tax Refund''),
     (\<lambda>d. py_in ''IRS  TREAS'' d \<and> py_in ''TAX REF'' d, \<lambda>_. ''Federal Tax Refund''),
     (\<lambda>_. True, default_rule)]"

fun first_match :: "rule list \<Rightarrow> string \<Rightarrow> string option" where
  "first_match [] d = None"
| "first_match ((p, r) # rs) d = (if p d then Some (r d) else first_match rs d)"

text \<open>The rules before the tax-refund rule, and all the named rules.\<close>

definition earlier_pattern :: "string \<Rightarrow> bool" where
  "earlier_pattern desc =
     (py_in ''UBER EATS'' desc \<or> py_in ''PAYPAL'' desc \<or> py_in ''CAREERBUILDER'' desc \<or>
      py_in ''INTEREST PAID'' desc \<or> py_in ''Georgia Departme'' desc)"

definition named_pattern :: "string \<Rightarrow> bool" where
  "named_pattern desc =
     (earlier_pattern desc \<or> (py_in ''IRS  TREAS'' desc \<and> py_in ''TAX REF'' desc))"

text \<open>A string that does not start with whitespace.\<close>

definition no_lead :: "string \<Rightarrow> bool" where
  "no_lead s = (case s of [] \<Rightarrow> True | c # _ \<Rightarrow> \<not> isspace c)"

section \<open>The aggregates as the specification words them\<close>

text \<open>The posted records of a month; the records of a month with a negative amount; and
  those of one merchant among them.\<close>

definition posted_in_month :: "string \<Rightarrow> raw_transaction list \<Rightarrow> raw_transaction list" where
  "posted_in_month m df = filter (\<lambda>r. Status r = ''Posted'' \<and> strftime_B_Y (Date r) = m) df"

definition spending_in_month :: "string \<Rightarrow> transaction list \<Rightarrow> transaction list" where
  "spending_in_month m df_posted = filter (\<lambda>r. MonthName r = m \<and> Amount r < 0) df_posted"

definition merchant_in_month :: "string \<Rightarrow> string \<Rightarrow> transaction list \<Rightarrow> transaction list" where
  "merchant_in_month m c df_posted = filter (\<lambda>r. CleanMerchant r = c) (spending_in_month m df_posted)"

section \<open>Re-parsing the exported summary\<close>

text \<open>
  Reading an exported summary row back: the month from its \<open>YYYY-MM\<close> text (four digits, a
  hyphen, two digits), the four values as they stand in the row.  \<open>month_keyed\<close> is the
  monthly summary itself with the month of each label in place of the label.
\<close>

definition parse_Y_m :: "string \<Rightarrow> (nat \<times> nat) option" where
  "parse_Y_m s =
     (if length s = 7 \<and> list_all isdigit (take 4 s) \<and> s ! 4 = CHR ''-''
         \<and> list_all isdigit (drop 5 s)
      then Some (parse_nat (take 4 s), parse_nat (drop 5 s)) else None)"

definition reparse_summary :: "summary_row list \<Rightarrow> ((nat \<times> nat) option \<times> stats) list" where
  "reparse_summary rows =
     map (\<lambda>r. (parse_Y_m (s_Month r),
               \<lparr>deposits = s_Deposits r, spending = s_Spending r, net = s_Net r,
                transaction_count = s_Transaction_Count r\<rparr>)) rows"

definition month_keyed :: "(string \<times> stats) list \<Rightarrow> ((nat \<times> nat) option \<times> stats) list" where
  "month_keyed monthly_stats = map (\<lambda>(label, st). (to_datetime_B_Y label, st)) monthly_stats"

section \<open>Example transactions\<close>

definition mk_row :: "nat \<Rightarrow> nat \<Rightarrow> nat \<Rightarrow> string \<Rightarrow> rat \<Rightarrow> string \<Rightarrow> raw_transaction" where
  "mk_row y m d desc amt st =
     \<lparr>Date = \<lparr>year = y, month = m, day = d\<rparr>, Description = desc, Amount = amt,
      Status = st, Category = ''Uncategorized''\<rparr>"

definition ex_deposit :: raw_transaction where
  "ex_deposit = mk_row 2024 3 1 ''ACME PAYROLL'' 1500 ''Posted''"

definition ex_pending :: raw_transaction where
  "ex_pending = mk_row 2024 3 10 ''HARDWARE STORE'' (- 500) ''Pending''"

definition ex_zero :: raw_transaction where
  "ex_zero = mk_row 2024 3 11 ''FEE WAIVED'' 0 ''Posted''"

text \<open>The amounts of the examples below have exact binary representations, and so has
  every number computed from them.\<close>

definition ex_uber :: raw_transaction where
  "ex_uber = mk_row 2024 3 5 ''UBER EATS ***1234'' (- 4225 / 100) ''Posted''"

definition ex_netflix :: raw_transaction where
  "ex_netflix = mk_row 2024 3 9 ''NETFLIX.COM'' (- 975 / 100) ''Posted''"

definition ex_df :: "raw_transaction list" where
  "ex_df = [ex_deposit, ex_uber, ex_netflix, ex_pending]"

definition ex_march :: stats where
  "ex_march = \<lparr>deposits = 1500, spending = 52, net = 1448, transaction_count = 3\<rparr>"

definition ex_report :: "merchant_row list" where
  "ex_report =
     [\<lparr>merchant = ''Uber Eats'', row_total = 4225 / 100, row_count = 1\<rparr>,
      \<lparr>merchant = ''NETFLIX.COM'', row_total = 975 / 100, row_count = 1\<rparr>]"

definition ex_table :: summary_table where
  "ex_table = \<lparr>tbl_rows = [(''March 2024'', ex_march)], tbl_total = (1500, 52, 1448, 3),
                tbl_average = (1500, 52, 1448, 3)\<rparr>"

definition ex_rent :: raw_transaction where
  "ex_rent = mk_row 2025 1 15 ''RENT'' (- 800) ''Posted''"

definition ex_two :: "raw_transaction list" where
  "ex_two = [ex_rent, ex_deposit]"

definition ex_two_rows :: "summary_row list" where
  "ex_two_rows =
     [\<lparr>s_Month = ''2024-03'', s_Deposits = 1500, s_Spending = 0, s_Net = 1500,
       s_Transaction_Count = 1\<rparr>,
      \<lparr>s_Month = ''2025-01'', s_Deposits = 0, s_Spending = 800, s_Net = - 800,
       s_Transaction_Count = 1\<rparr>]"

section \<open>Strings: trimming and the merchant rules\<close>

lemma py_in_sublist: "py_in sub s = sublist sub s"
  by (induction s) (auto simp: sublist_Cons_right)

lemma rstrip_decomp: "\<exists>ws. s = rstrip s @ ws \<and> (\<forall>c\<in>set ws. isspace c)"
proof -
  have "rev s = takeWhile isspace (rev s) @ dropWhile isspace (rev s)" by simp
  then have "s = rev (dropWhile isspace (rev s)) @ rev (takeWhile isspace (rev s))"
    by (metis rev_append rev_rev_ident)
  moreover have "\<forall>c\<in>set (rev (takeWhile isspace (rev s))). isspace c"
    by (auto dest: set_takeWhileD)
  ultimately show ?thesis unfolding rstrip_def by blast
qed

lemma rstrip_append_spaces: "\<forall>c\<in>set ws. isspace c \<Longrightarrow> rstrip (q @ ws) = rstrip q"
proof -
  assume "\<forall>c\<in>set ws. isspace c"
  then have "dropWhile isspace (rev ws @ rev q) = dropWhile isspace (rev q)"
    by (intro dropWhile_append2) simp
  then show ?thesis by (simp add: rstrip_def)
qed

lemma rstrip_idem: "rstrip (rstrip s) = rstrip s"
  by (simp add: rstrip_def)

lemma rstrip_eq_Nil: "rstrip s = [] \<longleftrightarrow> (\<forall>c\<in>set s. isspace c)"
  by (auto simp: rstrip_def dropWhile_eq_Nil_conv)

lemma lstrip_eq_Nil: "lstrip s = [] \<longleftrightarrow> (\<forall>c\<in>set s. isspace c)"
  by (auto simp: lstrip_def dropWhile_eq_Nil_conv)

lemma lstrip_no_lead: "no_lead s \<Longrightarrow> lstrip s = s"
  by (cases s) (auto simp: no_lead_def lstrip_def)

lemma no_lead_lstrip: "no_lead (lstrip s)"
  unfolding lstrip_def no_lead_def
  by (metis (mono_tags, lifting) dropWhile_eq_Cons_conv list.case_eq_if list.collapse)

lemma no_lead_prefix: "no_lead s \<Longrightarrow> prefix p s \<Longrightarrow> no_lead p"
  by (cases p; cases s) (auto simp: no_lead_def)

lemma prefix_rstrip: "prefix (rstrip s) s"
  using rstrip_decomp [of s] by (metis prefixI)

lemma prefix_split_first: "prefix (split_first sep s) s"
  by (induction s) auto

lemma no_lead_strip: "no_lead (strip s)"
  unfolding strip_def using no_lead_lstrip no_lead_prefix prefix_rstrip by blast

lemma strip_no_lead: "no_lead s \<Longrightarrow> strip s = rstrip s"
  by (simp add: strip_def lstrip_no_lead)

lemma strip_eq_Nil: "strip s = [] \<longleftrightarrow> (\<forall>c\<in>set s. isspace c)"
proof
  assume "strip s = []"
  then have "\<forall>c\<in>set (lstrip s). isspace c" by (simp add: strip_def rstrip_eq_Nil)
  moreover have "no_lead (lstrip s)" by (rule no_lead_lstrip)
  ultimately have "lstrip s = []" by (cases "lstrip s") (auto simp: no_lead_def)
  then show "\<forall>c\<in>set s. isspace c" by (simp add: lstrip_eq_Nil)
next
  assume "\<forall>c\<in>set s. isspace c"
  then have "lstrip s = []" by (simp add: lstrip_eq_Nil)
  then show "strip s = []" by (simp add: strip_def rstrip_def)
qed

lemma strip_no_lead_eq_Nil: "no_lead s \<Longrightarrow> strip s = [] \<longleftrightarrow> s = []"
  by (cases s) (auto simp: strip_eq_Nil no_lead_def)

lemma default_branch_eq:
  assumes "no_lead p"
  shows "(let cleaned = strip p in if length cleaned > 50 then strip (take 50 cleaned) else cleaned)
         = strip (take 50 p)"
proof -
  obtain ws where p: "p = rstrip p @ ws" and ws: "\<forall>c\<in>set ws. isspace c"
    using rstrip_decomp by blast
  have sp: "strip p = rstrip p" using assms by (rule strip_no_lead)
  have nl: "no_lead (take 50 p)" using assms no_lead_prefix take_is_prefix by blast
  show ?thesis
  proof (cases "length (rstrip p) > 50")
    case True
    have "take 50 (rstrip p) = take 50 (rstrip p @ ws)" using True by simp
    then have "take 50 (rstrip p) = take 50 p" using p by simp
    then show ?thesis using True sp by simp
  next
    case False
    have "take 50 p = take 50 (rstrip p @ ws)" using p by simp
    also have "\<dots> = rstrip p @ take (50 - length (rstrip p)) ws" using False by simp
    finally have "rstrip (take 50 p) = rstrip (rstrip p)"
      using ws by (metis in_set_takeD rstrip_append_spaces)
    then have "strip (take 50 p) = rstrip p" using nl by (simp add: strip_no_lead rstrip_idem)
    then show ?thesis using False sp by simp
  qed
qed

lemma clean_merchant_name_default:
  assumes "\<not> named_pattern (strip d)"
  shows "clean_merchant_name d = default_rule (strip d)"
proof -
  have "no_lead (split_first ''***'' (strip d))"
    using no_lead_strip no_lead_prefix prefix_split_first by blast
  from default_branch_eq [OF this] show ?thesis
    using assms unfolding clean_merchant_name_def named_pattern_def earlier_pattern_def default_rule_def Let_def
    by auto
qed

lemma split_first_eq_Nil: "split_first sep s = [] \<longleftrightarrow> s = [] \<or> prefix sep s"
  by (cases s) auto

lemma default_rule_eq_Nil:
  assumes "no_lead s"
  shows "default_rule s = [] \<longleftrightarrow> s = [] \<or> prefix ''***'' s"
proof -
  let ?p = "split_first ''***'' s"
  have nl: "no_lead ?p" using assms no_lead_prefix prefix_split_first by blast
  then have "no_lead (take 50 ?p)" using no_lead_prefix take_is_prefix by blast
  then have "default_rule s = [] \<longleftrightarrow> take 50 ?p = []"
    unfolding default_rule_def by (rule strip_no_lead_eq_Nil)
  also have "\<dots> \<longleftrightarrow> ?p = []" by simp
  finally show ?thesis by (simp only: split_first_eq_Nil)
qed

lemma length_rstrip_le: "length (rstrip s) \<le> length s"
  by (simp add: rstrip_def length_dropWhile_le order_trans [OF length_dropWhile_le])

lemma length_strip_le: "length (strip s) \<le> length s"
  unfolding strip_def lstrip_def
  by (meson length_dropWhile_le length_rstrip_le order_trans)

lemma length_default_rule: "length (default_rule s) \<le> 50"
  unfolding default_rule_def
  by (rule order_trans [OF length_strip_le]) simp

lemma clean_merchant_name_first_match:
  "first_match cleanMerchant_rules (strip d) = Some (clean_merchant_name d)"
proof (cases "named_pattern (strip d)")
  case True
  then show ?thesis
    unfolding named_pattern_def earlier_pattern_def cleanMerchant_rules_def clean_merchant_name_def Let_def
    by auto
next
  case False
  then show ?thesis
    using clean_merchant_name_default [OF False]
    unfolding named_pattern_def earlier_pattern_def cleanMerchant_rules_def
    by auto
qed

lemmas strip_defs = strip_def lstrip_def rstrip_def isspace_def

lemma clean_merchant_name_tax_refund:
  assumes "\<not> earlier_pattern (strip d)"
    and "py_in ''IRS  TREAS'' (strip d)" and "py_in ''TAX REF'' (strip d)"
  shows "clean_merchant_name d = ''Federal Tax Refund''"
  using assms unfolding clean_merchant_name_def earlier_pattern_def Let_def by simp

lemma clean_merchant_name_blank:
  assumes "\<forall>c\<in>set d. isspace c"
  shows "clean_merchant_name d = []"
proof -
  have s: "strip d = []" using assms by (simp add: strip_eq_Nil)
  have n: "strip [] = []" by (simp add: strip_def lstrip_def rstrip_def)
  show ?thesis unfolding clean_merchant_name_def Let_def s by (simp add: n)
qed

text \<open>
  C3.  \<open>clean_merchant_name\<close> is the first matching rule of the ordered rule list, applied
  to the trimmed description, the tests being case-sensitive substring tests.  A
  description that reaches the tax-refund rule and contains \<open>IRS  TREAS\<close> (two spaces) and
  \<open>TAX REF\<close> is labelled \<open>Federal Tax Refund\<close>, as \<open>IRS  TREAS 310 TAX REF\<close> is; the
  one-space variant does not match that rule and gets the default rule's result, itself.
\<close>

theorem C3_first_match_wins:
  "first_match cleanMerchant_rules (strip d) = Some (clean_merchant_name d)
   \<and> (\<not> earlier_pattern (strip d) \<and> py_in ''IRS  TREAS'' (strip d) \<and> py_in ''TAX REF'' (strip d)
        \<longrightarrow> clean_merchant_name d = ''Federal Tax Refund'')
   \<and> clean_merchant_name ''IRS  TREAS 310 TAX REF'' = ''Federal Tax Refund''
   \<and> \<not> py_in ''IRS  TREAS'' (strip ''IRS TREAS 310 TAX REF'')
   \<and> clean_merchant_name ''IRS TREAS 310 TAX REF'' = default_rule (strip ''IRS TREAS 310 TAX REF'')
   \<and> clean_merchant_name ''IRS TREAS 310 TAX REF'' = ''IRS TREAS 310 TAX REF''
   \<and> clean_merchant_name ''irs  treas 310 tax ref'' = ''irs  treas 310 tax ref''"
proof -
  have a: "first_match cleanMerchant_rules (strip d) = Some (clean_merchant_name d)"
    by (rule clean_merchant_name_first_match)
  have b: "\<not> earlier_pattern (strip d) \<and> py_in ''IRS  TREAS'' (strip d) \<and> py_in ''TAX REF'' (strip d)
        \<longrightarrow> clean_merchant_name d = ''Federal Tax Refund''"
    using clean_merchant_name_tax_refund by blast
  have c: "clean_merchant_name ''IRS  TREAS 310 TAX REF'' = ''Federal Tax Refund''"
    by (simp add: clean_merchant_name_def strip_defs)
  have e: "\<not> py_in ''IRS  TREAS'' (strip ''IRS TREAS 310 TAX REF'')"
    by (simp add: strip_defs)
  have f: "clean_merchant_name ''IRS TREAS 310 TAX REF'' = default_rule (strip ''IRS TREAS 310 TAX REF'')"
    by (simp add: clean_merchant_name_def default_rule_def strip_defs)
  have g: "clean_merchant_name ''IRS TREAS 310 TAX REF'' = ''IRS TREAS 310 TAX REF''"
    by (simp add: clean_merchant_name_def strip_defs)
  have h: "clean_merchant_name ''irs  treas 310 tax ref'' = ''irs  treas 310 tax ref''"
    by (simp add: clean_merchant_name_def strip_defs)
  from a b c e f g h show ?thesis by blast
qed

theorem C3_first_match_wins_witness:
  "\<not> earlier_pattern (strip ''  IRS  TREAS 310 TAX REF 2024 '')
   \<and> py_in ''IRS  TREAS'' (strip ''  IRS  TREAS 310 TAX REF 2024 '')
   \<and> py_in ''TAX REF'' (strip ''  IRS  TREAS 310 TAX REF 2024 '')
   \<and> clean_merchant_name ''  IRS  TREAS 310 TAX REF 2024 '' = ''Federal Tax Refund''"
proof -
  have h: "\<not> earlier_pattern (strip ''  IRS  TREAS 310 TAX REF 2024 '')
     \<and> py_in ''IRS  TREAS'' (strip ''  IRS  TREAS 310 TAX REF 2024 '')
     \<and> py_in ''TAX REF'' (strip ''  IRS  TREAS 310 TAX REF 2024 '')"
    by (simp add: earlier_pattern_def strip_defs)
  with C3_first_match_wins [of "''  IRS  TREAS 310 TAX REF 2024 ''"] show ?thesis by blast
qed

text \<open>
  C4, as stated, fails: \<open>***1234\<close> is not empty, matches none of the named patterns, and
  its clean merchant name is empty.
\<close>

theorem C4_nonempty_counterexample:
  "''***1234'' \<noteq> [] \<and> \<not> named_pattern (strip ''***1234'') \<and> clean_merchant_name ''***1234'' = []"
  by (simp add: clean_merchant_name_def named_pattern_def earlier_pattern_def strip_defs)

text \<open>
  C4, amended.  For a description that matches none of the named patterns, the result is
  the part of the trimmed description before the first \<open>***\<close>, cut to at most 50 characters
  and trimmed again; it has at most 50 characters; and it is empty exactly when the
  description is empty or all whitespace, or its trimmed form starts with \<open>***\<close>.  An empty
  or all-whitespace description gives the empty string.
\<close>

theorem C4_default_rule:
  "(\<not> named_pattern (strip d) \<longrightarrow>
      clean_merchant_name d = strip (take 50 (split_first ''***'' (strip d)))
      \<and> length (clean_merchant_name d) \<le> 50
      \<and> ((clean_merchant_name d = []) = ((\<forall>c\<in>set d. isspace c) \<or> prefix ''***'' (strip d))))
   \<and> ((\<forall>c\<in>set d. isspace c) \<longrightarrow> clean_merchant_name d = [])"
proof -
  have "clean_merchant_name d = strip (take 50 (split_first ''***'' (strip d)))
      \<and> length (clean_merchant_name d) \<le> 50
      \<and> ((clean_merchant_name d = []) = ((\<forall>c\<in>set d. isspace c) \<or> prefix ''***'' (strip d)))"
    if n: "\<not> named_pattern (strip d)"
  proof -
    have eq: "clean_merchant_name d = default_rule (strip d)"
      using n by (rule clean_merchant_name_default)
    have "(default_rule (strip d) = []) = (strip d = [] \<or> prefix ''***'' (strip d))"
      using no_lead_strip by (rule default_rule_eq_Nil)
    then have "(clean_merchant_name d = []) = ((\<forall>c\<in>set d. isspace c) \<or> prefix ''***'' (strip d))"
      using eq by (simp add: strip_eq_Nil)
    then show ?thesis using eq length_default_rule [of "strip d"] by (simp add: default_rule_def)
  qed
  then show ?thesis using clean_merchant_name_blank by blast
qed

theorem C4_default_rule_witness:
  "\<not> named_pattern (strip ''  CITY WATER UTILITY ***********F3A3 '')
   \<and> clean_merchant_name ''  CITY WATER UTILITY ***********F3A3 '' = ''CITY WATER UTILITY''
   \<and> list_all isspace ''   '' \<and> clean_merchant_name ''   '' = []"
proof -
  have h1: "\<not> named_pattern (strip ''  CITY WATER UTILITY ***********F3A3 '')"
    by (simp add: named_pattern_def earlier_pattern_def strip_defs)
  have h2: "\<forall>c\<in>set ''   ''. isspace c" by (simp add: isspace_def)
  have v: "strip (take 50 (split_first ''***'' (strip ''  CITY WATER UTILITY ***********F3A3 '')))
      = ''CITY WATER UTILITY''"
    by (simp add: strip_defs)
  from C4_default_rule [of "''  CITY WATER UTILITY ***********F3A3 ''"] h1 v
  have "clean_merchant_name ''  CITY WATER UTILITY ***********F3A3 '' = ''CITY WATER UTILITY''"
    by simp
  moreover from C4_default_rule [of "''   ''"] h2 have "clean_merchant_name ''   '' = []"
    by blast
  ultimately show ?thesis using h1 h2 by (simp add: list_all_iff)
qed

text \<open>
  C6.  The transaction type \<open>clean_data\<close> derives for a row is \<open>Deposit\<close> exactly when the
  row's amount is greater than zero, and \<open>Withdrawal\<close> exactly when it is zero or negative;
  so it is for every row \<open>clean_data\<close> returns.
\<close>

theorem C6_transaction_type:
  "(TransactionType (add_columns r) = ''Deposit'') = (0 < Amount r)
   \<and> (TransactionType (add_columns r) = ''Withdrawal'') = (Amount r \<le> 0)
   \<and> Amount (add_columns r) = Amount r
   \<and> (\<forall>t\<in>set (clean_data df).
        (TransactionType t = ''Deposit'') = (0 < Amount t)
        \<and> (TransactionType t = ''Withdrawal'') = (Amount t \<le> 0))"
  by (auto simp: add_columns_def clean_data_def raw_transaction.extend_def split: if_splits)

theorem C6_transaction_type_witness:
  "add_columns ex_zero \<in> set (clean_data [ex_deposit, ex_zero, ex_pending])
   \<and> Amount (add_columns ex_zero) = 0
   \<and> TransactionType (add_columns ex_zero) = ''Withdrawal''
   \<and> add_columns ex_deposit \<in> set (clean_data [ex_deposit, ex_zero, ex_pending])
   \<and> Amount (add_columns ex_deposit) = 1500
   \<and> TransactionType (add_columns ex_deposit) = ''Deposit''"
proof -
  have m: "add_columns ex_zero \<in> set (clean_data [ex_deposit, ex_zero, ex_pending])"
    "add_columns ex_deposit \<in> set (clean_data [ex_deposit, ex_zero, ex_pending])"
    by (simp_all add: clean_data_def add_columns_def raw_transaction.extend_def ex_zero_def
        ex_deposit_def ex_pending_def mk_row_def)
  have a: "Amount (add_columns ex_zero) = 0" "Amount (add_columns ex_deposit) = 1500"
    by (simp_all add: add_columns_def raw_transaction.extend_def ex_zero_def ex_deposit_def
        mk_row_def)
  from C6_transaction_type [of _ "[ex_deposit, ex_zero, ex_pending]"] m a
  show ?thesis by fastforce
qed

section \<open>Rounding\<close>

lemma rint_char:
  assumes "of_int f \<le> x" and "x < of_int f + 1"
  shows "rint x =
     (if x - of_int f < 1 / 2 then f else if 1 / 2 < x - of_int f then f + 1
      else if even f then f else f + 1)"
proof -
  have "\<lfloor>x\<rfloor> = f" using assms by linarith
  then show ?thesis unfolding rint_def Let_def by simp
qed

lemma rint_cases:
  "rint x = \<lfloor>x\<rfloor> \<or> rint x = \<lfloor>x\<rfloor> + 1"
  unfolding rint_def Let_def by presburger

lemma rint_error: "\<bar>of_int (rint x) - x\<bar> \<le> 1 / 2"
proof -
  define f where "f = \<lfloor>x\<rfloor>"
  have b: "of_int f \<le> x" "x < of_int f + 1" unfolding f_def by linarith+
  note c = rint_char [OF b]
  consider "x - of_int f < 1 / 2" | "1 / 2 < x - of_int f" | "x - of_int f = 1 / 2"
    by linarith
  then show ?thesis
  proof cases
    case 1
    then have "rint x = f" using c by presburger
    then show ?thesis using 1 b by linarith
  next
    case 2
    then have "rint x = f + 1" using c by (metis less_asym)
    then have "(of_int (rint x) :: rat) = of_int f + 1" by simp
    then show ?thesis using 2 b by linarith
  next
    case 3
    then have "rint x = f \<or> rint x = f + 1" using c by presburger
    then have "(of_int (rint x) :: rat) = of_int f \<or> (of_int (rint x) :: rat) = of_int f + 1"
      by auto
    then show ?thesis using 3 by linarith
  qed
qed

lemma rint_tie_even:
  assumes "\<bar>of_int (rint x) - x\<bar> = 1 / 2"
  shows "even (rint x)"
proof -
  define f where "f = \<lfloor>x\<rfloor>"
  have b: "of_int f \<le> x" "x < of_int f + 1" unfolding f_def by linarith+
  note c = rint_char [OF b]
  consider "x - of_int f < 1 / 2" | "1 / 2 < x - of_int f" | "x - of_int f = 1 / 2"
    by linarith
  then show ?thesis
  proof cases
    case 1
    then have "rint x = f" using c by presburger
    then have False using 1 b assms by linarith
    then show ?thesis ..
  next
    case 2
    then have "rint x = f + 1" using c by (metis less_asym)
    then have "(of_int (rint x) :: rat) = of_int f + 1" by simp
    then have False using 2 b assms by linarith
    then show ?thesis ..
  next
    case 3
    then have n: "\<not> x - of_int f < 1 / 2" "\<not> 1 / 2 < x - of_int f" by simp_all
    show ?thesis
    proof (cases "even f")
      case True
      then have "rint x = f" using c n by presburger
      then show ?thesis using True by simp
    next
      case False
      then have "rint x = f + 1" using c n by presburger
      then show ?thesis using False by simp
    qed
  qed
qed

lemma rint_unique:
  assumes "\<bar>of_int n - x\<bar> \<le> 1 / 2" and "\<bar>of_int n - x\<bar> = 1 / 2 \<longrightarrow> even n"
  shows "rint x = n"
proof (rule ccontr)
  assume ne: "rint x \<noteq> n"
  have e: "\<bar>of_int (rint x) - x\<bar> \<le> 1 / 2" by (rule rint_error)
  have "\<bar>(of_int (rint x) :: rat) - of_int n\<bar> \<le> 1" using e assms(1) by linarith
  then have "\<bar>(of_int (rint x - n) :: rat)\<bar> \<le> 1" by simp
  then have "\<bar>rint x - n\<bar> \<le> 1" by (metis of_int_abs of_int_le_1_iff)
  then have d: "rint x = n + 1 \<or> rint x = n - 1" using ne by linarith
  then have d': "(of_int (rint x) :: rat) = of_int n + 1 \<or> (of_int (rint x) :: rat) = of_int n - 1"
    by auto
  have t1: "\<bar>of_int (rint x) - x\<bar> = 1 / 2" using d' e assms(1) by linarith
  have t2: "\<bar>of_int n - x\<bar> = 1 / 2" using d' e assms(1) by linarith
  have "even (rint x)" using t1 by (rule rint_tie_even)
  moreover have "even n" using t2 assms(2) by blast
  ultimately show False using d by auto
qed

lemma rint_minus: "rint (- x) = - rint x"
proof (rule rint_unique)
  have eq: "\<bar>of_int (- rint x) - - x\<bar> = \<bar>of_int (rint x) - x\<bar>" by simp
  show "\<bar>of_int (- rint x) - - x\<bar> \<le> 1 / 2" unfolding eq by (rule rint_error)
  show "\<bar>of_int (- rint x) - - x\<bar> = 1 / 2 \<longrightarrow> even (- rint x)"
    unfolding eq using rint_tie_even [of x] by simp
qed

lemma rint_le_int: "x \<le> of_int k \<Longrightarrow> rint x \<le> k"
proof -
  assume a: "x \<le> of_int k"
  have f: "of_int \<lfloor>x\<rfloor> \<le> x" "x < of_int \<lfloor>x\<rfloor> + 1" by linarith+
  have fk: "\<lfloor>x\<rfloor> \<le> k" using a by (simp add: floor_le_iff)
  show ?thesis
  proof (cases "\<lfloor>x\<rfloor> = k")
    case True
    then have "x = of_int k" using a f by simp
    then show ?thesis by (simp add: rint_def)
  next
    case False
    then have "\<lfloor>x\<rfloor> + 1 \<le> k" using fk by simp
    then show ?thesis using rint_cases [of x] by auto
  qed
qed

lemma rint_of_int: "rint (of_int k) = k"
  by (simp add: rint_def)

lemma np_round_error: "\<bar>np_round n x - x\<bar> \<le> 1 / (2 * 10 ^ n)"
proof -
  have p: "(0::rat) < 10 ^ n" by simp
  have "np_round n x - x = (of_int (rint (x * 10 ^ n)) - x * 10 ^ n) / 10 ^ n"
    unfolding np_round_def using p by (simp add: diff_divide_distrib)
  then have "\<bar>np_round n x - x\<bar> = \<bar>of_int (rint (x * 10 ^ n)) - x * 10 ^ n\<bar> / 10 ^ n"
    using p by (simp add: abs_divide)
  also have "\<dots> \<le> (1 / 2) / 10 ^ n"
    by (rule divide_right_mono [OF rint_error]) simp
  finally show ?thesis by simp
qed

lemma np_round_minus: "np_round n (- x) = - np_round n x"
  by (simp add: np_round_def rint_minus)

lemma np_round_abs: "np_round n \<bar>x\<bar> = \<bar>np_round n x\<bar>"
proof (cases "0 \<le> x")
  case True
  then have "0 \<le> x * 10 ^ n" by simp
  then have "(of_int 0 :: rat) \<le> x * 10 ^ n" by simp
  then have "- (x * 10 ^ n) \<le> of_int 0" by simp
  then have "rint (- (x * 10 ^ n)) \<le> 0" by (rule rint_le_int)
  then have "0 \<le> rint (x * 10 ^ n)" by (simp add: rint_minus)
  then have "0 \<le> np_round n x" by (simp add: np_round_def)
  then show ?thesis using True by simp
next
  case False
  then have "x * 10 ^ n \<le> of_int 0" by (simp add: mult_le_0_iff)
  then have "rint (x * 10 ^ n) \<le> 0" by (rule rint_le_int)
  then have "np_round n x \<le> 0" by (simp add: np_round_def divide_le_0_iff)
  then show ?thesis using False by (simp add: np_round_minus)
qed

lemma np_round_le_neg_cent:
  assumes "x \<le> - (1 / 100)"
  shows "np_round 2 x \<le> - (1 / 100)"
proof -
  have "x * 10 ^ 2 \<le> of_int (- 1)" using assms by simp
  then have "rint (x * 10 ^ 2) \<le> - 1" by (rule rint_le_int)
  then have "(of_int (rint (x * 10 ^ 2)) :: rat) \<le> - 1" by linarith
  then show ?thesis unfolding np_round_def by (simp add: divide_le_eq)
qed

section \<open>Grouping and sums\<close>

lemma fst_groupby: "map fst (groupby key df) = sort (remdups (map key df))"
  by (simp add: groupby_def comp_def)

lemma distinct_groupby: "distinct (map fst (groupby key df))"
  by (simp add: fst_groupby)

lemma keys_groupby: "fst ` set (groupby key df) = key ` set df"
proof -
  have "fst ` set (groupby key df) = set (map fst (groupby key df))" by simp
  then show ?thesis by (simp only: fst_groupby set_sort set_remdups set_map)
qed

lemma in_groupby:
  "(k, g) \<in> set (groupby key df) \<longleftrightarrow> k \<in> key ` set df \<and> g = filter (\<lambda>r. key r = k) df"
  by (auto simp: groupby_def)

lemma group_nonempty: "(k, g) \<in> set (groupby key df) \<Longrightarrow> g \<noteq> []"
  by (auto simp: in_groupby filter_empty_conv)

lemma groupby_eq_Nil: "groupby key df = [] \<longleftrightarrow> df = []"
proof -
  have "groupby key df = [] \<longleftrightarrow> set (map fst (groupby key df)) = {}" by simp
  also have "\<dots> \<longleftrightarrow> df = []" by (simp only: fst_groupby set_sort set_remdups set_map) simp
  finally show ?thesis .
qed

lemma sum_list_filter_keys:
  fixes f :: "'r \<Rightarrow> rat"
  assumes "finite K" and "key ` set df \<subseteq> K"
  shows "(\<Sum>k\<in>K. sum_list (map f (filter (\<lambda>r. key r = k) df))) = sum_list (map f df)"
  using assms(2)
proof (induction df)
  case Nil
  then show ?case by simp
next
  case (Cons x xs)
  have "(\<Sum>k\<in>K. sum_list (map f (filter (\<lambda>r. key r = k) (x # xs))))
      = (\<Sum>k\<in>K. (if key x = k then f x else 0) + sum_list (map f (filter (\<lambda>r. key r = k) xs)))"
    by (rule sum.cong) auto
  also have "\<dots> = (\<Sum>k\<in>K. if key x = k then f x else 0)
      + (\<Sum>k\<in>K. sum_list (map f (filter (\<lambda>r. key r = k) xs)))"
    by (rule sum.distrib)
  also have "(\<Sum>k\<in>K. if key x = k then f x else 0) = f x"
    using assms(1) Cons.prems by (simp add: sum.delta)
  finally show ?case using Cons by simp
qed

lemma sum_list_groupby:
  fixes f :: "'r \<Rightarrow> rat"
  shows "sum_list (map (\<lambda>(k, g). sum_list (map f g)) (groupby key df)) = sum_list (map f df)"
proof -
  let ?ks = "sort (remdups (map key df))"
  have d: "distinct ?ks" by simp
  have "sum_list (map (\<lambda>(k, g). sum_list (map f g)) (groupby key df))
      = sum_list (map (\<lambda>k. sum_list (map f (filter (\<lambda>r. key r = k) df))) ?ks)"
    by (simp add: groupby_def comp_def)
  also have "\<dots> = (\<Sum>k\<in>set ?ks. sum_list (map f (filter (\<lambda>r. key r = k) df)))"
    using d by (simp add: sum_list_distinct_conv_sum_set)
  also have "\<dots> = sum_list (map f df)"
    by (rule sum_list_filter_keys) auto
  finally show ?thesis .
qed

lemma sum_list_insort_key:
  fixes f :: "'a \<Rightarrow> rat"
  shows "sum_list (map f (insort_key k x xs)) = f x + sum_list (map f xs)"
  by (induction xs) auto

lemma sum_list_sort_key:
  fixes f :: "'a \<Rightarrow> rat"
  shows "sum_list (map f (sort_key k xs)) = sum_list (map f xs)"
  by (induction xs) (auto simp: sum_list_insort_key)

lemma sum_list_abs_diff_le:
  fixes a b :: "'a \<Rightarrow> rat"
  assumes "\<forall>x\<in>set xs. \<bar>a x - b x\<bar> \<le> c"
  shows "\<bar>sum_list (map a xs) - sum_list (map b xs)\<bar> \<le> c * of_nat (length xs)"
  using assms
proof (induction xs)
  case Nil
  then show ?case by simp
next
  case (Cons x xs)
  then have "\<bar>a x - b x\<bar> \<le> c"
    and "\<bar>sum_list (map a xs) - sum_list (map b xs)\<bar> \<le> c * of_nat (length xs)" by auto
  then show ?case by (simp add: algebra_simps)
qed

lemma sum_list_neg_le:
  fixes f :: "'a \<Rightarrow> rat"
  assumes "xs \<noteq> []" and "\<forall>x\<in>set xs. f x \<le> c" and "c \<le> 0"
  shows "sum_list (map f xs) \<le> c"
  using assms
proof (induction xs)
  case Nil
  then show ?case by simp
next
  case (Cons x xs)
  show ?case
  proof (cases "xs = []")
    case True
    then show ?thesis using Cons.prems by simp
  next
    case False
    then have "sum_list (map f xs) \<le> c" using Cons by simp
    moreover have "f x \<le> c" using Cons.prems by simp
    ultimately show ?thesis using \<open>c \<le> 0\<close> by simp
  qed
qed

lemma sum_list_pos:
  fixes f :: "'a \<Rightarrow> rat"
  assumes "xs \<noteq> []" and "\<forall>x\<in>set xs. c \<le> f x" and "0 < c"
  shows "c \<le> sum_list (map f xs)"
  using assms
proof (induction xs)
  case Nil
  then show ?case by simp
next
  case (Cons x xs)
  show ?case
  proof (cases "xs = []")
    case True
    then show ?thesis using Cons.prems by simp
  next
    case False
    then have "c \<le> sum_list (map f xs)" using Cons by simp
    moreover have "c \<le> f x" using Cons.prems by simp
    ultimately show ?thesis using \<open>0 < c\<close> by simp
  qed
qed

section \<open>Monthly totals\<close>

lemma add_columns_simps [simp]:
  "Amount (add_columns r) = Amount r"
  "Status (add_columns r) = Status r"
  "Date (add_columns r) = Date r"
  "Description (add_columns r) = Description r"
  "MonthName (add_columns r) = strftime_B_Y (Date r)"
  "CleanMerchant (add_columns r) = clean_merchant_name (Description r)"
  by (simp_all add: add_columns_def raw_transaction.extend_def)

lemma month_group_clean_data:
  "filter (\<lambda>t. MonthName t = m) (clean_data df) = map add_columns (posted_in_month m df)"
  by (induction df) (auto simp: clean_data_def posted_in_month_def)

lemma Amount_filter_add_columns:
  "map Amount (filter (\<lambda>t. P (Amount t)) (map add_columns xs))
   = map Amount (filter (\<lambda>r. P (Amount r)) xs)"
  by (induction xs) auto

lemma clean_data_drop_unposted:
  "Status p \<noteq> ''Posted'' \<Longrightarrow> clean_data (xs @ p # ys) = clean_data (xs @ ys)"
  by (simp add: clean_data_def)

lemma fst_monthly_totals:
  "map fst (calculate_monthly_totals ops dfp) = sort (remdups (map MonthName dfp))"
proof -
  have "map fst (calculate_monthly_totals ops dfp) = map fst (groupby MonthName dfp)"
    unfolding calculate_monthly_totals_def by (simp add: comp_def case_prod_unfold Let_def)
  then show ?thesis by (simp only: fst_groupby)
qed

lemma in_monthly_totals:
  assumes "(m, st) \<in> set (calculate_monthly_totals ops dfp)"
  shows "m \<in> MonthName ` set dfp"
    and "deposits st = series_sum ops (map Amount (filter (\<lambda>r. 0 < Amount r) (filter (\<lambda>r. MonthName r = m) dfp)))"
    and "spending st = \<bar>series_sum ops (map Amount (filter (\<lambda>r. Amount r < 0) (filter (\<lambda>r. MonthName r = m) dfp)))\<bar>"
    and "net st = f_sub ops (deposits st) (spending st)"
    and "transaction_count st = length (filter (\<lambda>r. MonthName r = m) dfp)"
proof -
  from assms obtain g where g: "(m, g) \<in> set (groupby MonthName dfp)"
    and st: "st = \<lparr>deposits = series_sum ops (map Amount (filter (\<lambda>r. 0 < Amount r) g)),
       spending = \<bar>series_sum ops (map Amount (filter (\<lambda>r. Amount r < 0) g))\<bar>,
       net = f_sub ops (series_sum ops (map Amount (filter (\<lambda>r. 0 < Amount r) g)))
             \<bar>series_sum ops (map Amount (filter (\<lambda>r. Amount r < 0) g))\<bar>,
       transaction_count = length g\<rparr>"
    unfolding calculate_monthly_totals_def by (auto simp: Let_def)
  from g have m: "m \<in> MonthName ` set dfp" and ge: "g = filter (\<lambda>r. MonthName r = m) dfp"
    by (simp_all add: in_groupby)
  show "m \<in> MonthName ` set dfp" by (rule m)
  show "deposits st = series_sum ops (map Amount (filter (\<lambda>r. 0 < Amount r) (filter (\<lambda>r. MonthName r = m) dfp)))"
    using st ge by simp
  show "spending st = \<bar>series_sum ops (map Amount (filter (\<lambda>r. Amount r < 0) (filter (\<lambda>r. MonthName r = m) dfp)))\<bar>"
    using st ge by simp
  show "net st = f_sub ops (deposits st) (spending st)" using st by simp
  show "transaction_count st = length (filter (\<lambda>r. MonthName r = m) dfp)" using st ge by simp
qed

lemma monthly_totals_exists:
  assumes "m \<in> MonthName ` set dfp"
  shows "\<exists>st. (m, st) \<in> set (calculate_monthly_totals ops dfp)"
proof -
  have "m \<in> set (map fst (calculate_monthly_totals ops dfp))"
    using assms by (simp only: fst_monthly_totals set_sort set_remdups set_map)
  then show ?thesis by auto
qed

lemma distinct_monthly_totals: "distinct (map fst (calculate_monthly_totals ops dfp))"
  by (simp only: fst_monthly_totals) simp

text \<open>
  C5.  The months of the monthly totals are the months of the posted records, each once.
  For each of them, deposits is the sum of the positive amounts of the month's posted
  records, spending the absolute value of the sum of their negative amounts, net is
  deposits minus spending, and the transaction count is the number of the month's posted
  records; the sums are the column sums and the difference is the subtraction of the
  program's arithmetic.  A record whose status is not \<open>Posted\<close> changes none of the
  totals.
\<close>

theorem C5_monthly_totals:
  "map fst (calculate_monthly_totals ops (clean_data df))
     = sort (remdups (map (\<lambda>r. strftime_B_Y (Date r)) (filter (\<lambda>r. Status r = ''Posted'') df)))
   \<and> (\<forall>(m, st)\<in>set (calculate_monthly_totals ops (clean_data df)).
        deposits st = series_sum ops (map Amount (filter (\<lambda>r. 0 < Amount r) (posted_in_month m df)))
        \<and> spending st = \<bar>series_sum ops (map Amount (filter (\<lambda>r. Amount r < 0) (posted_in_month m df)))\<bar>
        \<and> net st = f_sub ops (deposits st) (spending st)
        \<and> transaction_count st = length (posted_in_month m df))
   \<and> (Status p \<noteq> ''Posted'' \<longrightarrow>
        calculate_monthly_totals ops (clean_data (xs @ p # ys))
          = calculate_monthly_totals ops (clean_data (xs @ ys)))"
proof (intro conjI)
  have "map MonthName (clean_data df)
      = map (\<lambda>r. strftime_B_Y (Date r)) (filter (\<lambda>r. Status r = ''Posted'') df)"
    by (induction df) (auto simp: clean_data_def)
  then show "map fst (calculate_monthly_totals ops (clean_data df))
     = sort (remdups (map (\<lambda>r. strftime_B_Y (Date r)) (filter (\<lambda>r. Status r = ''Posted'') df)))"
    by (simp only: fst_monthly_totals)
next
  show "\<forall>(m, st)\<in>set (calculate_monthly_totals ops (clean_data df)).
        deposits st = series_sum ops (map Amount (filter (\<lambda>r. 0 < Amount r) (posted_in_month m df)))
        \<and> spending st = \<bar>series_sum ops (map Amount (filter (\<lambda>r. Amount r < 0) (posted_in_month m df)))\<bar>
        \<and> net st = f_sub ops (deposits st) (spending st)
        \<and> transaction_count st = length (posted_in_month m df)"
  proof (clarify, intro conjI)
    fix m st
    assume a: "(m, st) \<in> set (calculate_monthly_totals ops (clean_data df))"
    note g = month_group_clean_data [of m df]
    show "deposits st = series_sum ops (map Amount (filter (\<lambda>r. 0 < Amount r) (posted_in_month m df)))"
      using in_monthly_totals(2) [OF a] unfolding g
      by (simp only: Amount_filter_add_columns [of "\<lambda>a. 0 < a"])
    show "spending st = \<bar>series_sum ops (map Amount (filter (\<lambda>r. Amount r < 0) (posted_in_month m df)))\<bar>"
      using in_monthly_totals(3) [OF a] unfolding g
      by (simp only: Amount_filter_add_columns [of "\<lambda>a. a < 0"])
    show "net st = f_sub ops (deposits st) (spending st)" by (rule in_monthly_totals(4) [OF a])
    show "transaction_count st = length (posted_in_month m df)"
      using in_monthly_totals(5) [OF a] unfolding g by simp
  qed
next
  show "Status p \<noteq> ''Posted'' \<longrightarrow>
        calculate_monthly_totals ops (clean_data (xs @ p # ys))
          = calculate_monthly_totals ops (clean_data (xs @ ys))"
    by (simp add: clean_data_drop_unposted)
qed

lemma ex_monthly_totals:
  "calculate_monthly_totals exact (clean_data ex_df) = [(''March 2024'', ex_march)]"
  by code_simp

lemma ex_posted_in_month:
  "posted_in_month ''March 2024'' ex_df = [ex_deposit, ex_uber, ex_netflix]"
  by code_simp

theorem C5_monthly_totals_witness:
  "(''March 2024'', ex_march) \<in> set (calculate_monthly_totals exact (clean_data ex_df))
   \<and> posted_in_month ''March 2024'' ex_df = [ex_deposit, ex_uber, ex_netflix]
   \<and> deposits ex_march = 1500
   \<and> spending ex_march = \<bar>Amount ex_uber + Amount ex_netflix\<bar>
   \<and> net ex_march = 1500 - \<bar>Amount ex_uber + Amount ex_netflix\<bar>
   \<and> transaction_count ex_march = 3
   \<and> Status ex_pending \<noteq> ''Posted''
   \<and> calculate_monthly_totals exact (clean_data ([ex_deposit, ex_uber, ex_netflix] @ ex_pending # []))
       = calculate_monthly_totals exact (clean_data ([ex_deposit, ex_uber, ex_netflix] @ []))"
proof -
  have m: "(''March 2024'', ex_march) \<in> set (calculate_monthly_totals exact (clean_data ex_df))"
    by (simp add: ex_monthly_totals)
  have p: "Status ex_pending \<noteq> ''Posted''" by (simp add: ex_pending_def mk_row_def)
  have a: "Amount ex_deposit = 1500" "Amount ex_uber < 0" "Amount ex_netflix < 0"
    by (simp_all add: ex_deposit_def ex_uber_def ex_netflix_def mk_row_def)
  note t = C5_monthly_totals [of exact ex_df ex_pending "[ex_deposit, ex_uber, ex_netflix]" "[]"]
  from t m have
    "deposits ex_march
       = series_sum exact (map Amount (filter (\<lambda>r. 0 < Amount r) (posted_in_month ''March 2024'' ex_df)))
     \<and> spending ex_march
       = \<bar>series_sum exact (map Amount (filter (\<lambda>r. Amount r < 0) (posted_in_month ''March 2024'' ex_df)))\<bar>
     \<and> net ex_march = f_sub exact (deposits ex_march) (spending ex_march)
     \<and> transaction_count ex_march = length (posted_in_month ''March 2024'' ex_df)"
    by blast
  then have "deposits ex_march = 1500
     \<and> spending ex_march = \<bar>Amount ex_uber + Amount ex_netflix\<bar>
     \<and> net ex_march = 1500 - \<bar>Amount ex_uber + Amount ex_netflix\<bar>
     \<and> transaction_count ex_march = 3"
    unfolding ex_posted_in_month using a by (simp add: series_sum_def exact_def)
  moreover from t p have
    "calculate_monthly_totals exact (clean_data ([ex_deposit, ex_uber, ex_netflix] @ ex_pending # []))
       = calculate_monthly_totals exact (clean_data ([ex_deposit, ex_uber, ex_netflix] @ []))"
    by blast
  ultimately show ?thesis using m p ex_posted_in_month by blast
qed

section \<open>The spending report\<close>

lemma in_map_filter_groups:
  "(m, rows) \<in> set (List.map_filter
       (\<lambda>(month, month_df).
          let spending_df = filter (\<lambda>r. Amount r < 0) month_df in
          if length spending_df = 0 then None else Some (month, merchant_spending ops spending_df)) xs)
   \<longleftrightarrow> (\<exists>g. (m, g) \<in> set xs \<and> filter (\<lambda>r. Amount r < 0) g \<noteq> []
          \<and> rows = merchant_spending ops (filter (\<lambda>r. Amount r < 0) g))"
  by (induction xs) (auto simp: map_filter_simps Let_def split: if_splits)

lemma spending_in_month_nonempty:
  assumes "spending_in_month m dfp \<noteq> []"
  shows "m \<in> MonthName ` set dfp"
proof -
  from assms obtain r where "r \<in> set (spending_in_month m dfp)"
    by (cases "spending_in_month m dfp") auto
  then show ?thesis by (auto simp: spending_in_month_def)
qed

lemma in_spending_report:
  "(m, rows) \<in> set (create_spending_report ops dfp) \<longleftrightarrow>
     spending_in_month m dfp \<noteq> [] \<and> rows = merchant_spending ops (spending_in_month m dfp)"
proof -
  have "(m, rows) \<in> set (create_spending_report ops dfp) \<longleftrightarrow>
      m \<in> MonthName ` set dfp \<and> spending_in_month m dfp \<noteq> []
      \<and> rows = merchant_spending ops (spending_in_month m dfp)"
    unfolding create_spending_report_def in_map_filter_groups in_groupby spending_in_month_def
    by auto
  then show ?thesis using spending_in_month_nonempty by blast
qed

lemma fst_map_filter_groups:
  "map fst (List.map_filter
       (\<lambda>(month, month_df).
          let spending_df = filter (\<lambda>r. Amount r < 0) month_df in
          if length spending_df = 0 then None else Some (month, merchant_spending ops spending_df)) xs)
   = map fst (filter (\<lambda>(m, g). filter (\<lambda>r. Amount r < 0) g \<noteq> []) xs)"
  by (induction xs) (auto simp: map_filter_simps Let_def)

lemma fst_spending_report:
  "map fst (create_spending_report ops dfp)
   = filter (\<lambda>m. spending_in_month m dfp \<noteq> []) (sort (remdups (map MonthName dfp)))"
proof -
  show ?thesis
    unfolding create_spending_report_def fst_map_filter_groups groupby_def
    by (simp add: filter_map comp_def spending_in_month_def)
qed

lemma distinct_spending_report: "distinct (map fst (create_spending_report ops dfp))"
  by (simp only: fst_spending_report) simp

lemma set_sort_total_desc: "set (sort_total_desc rows) = set rows"
  by (simp add: sort_total_desc_def)

lemma length_sort_total_desc: "length (sort_total_desc rows) = length rows"
  by (simp add: sort_total_desc_def)

lemma distinct_sort_total_desc: "distinct (sort_total_desc rows) = distinct rows"
  by (simp add: sort_total_desc_def)

lemma sorted_sort_total_desc:
  "sorted_wrt (\<lambda>a b. b \<le> a) (map row_total (sort_total_desc rows))"
proof -
  have "sorted (map (\<lambda>r. - row_total r) (sort_total_desc rows))"
    unfolding sort_total_desc_def by (rule sorted_sort_key)
  then show ?thesis by (simp add: sorted_wrt_map)
qed


text \<open>The rows of a month before sorting: one per merchant.\<close>

lemma in_merchant_spending:
  "row \<in> set (merchant_spending ops sp) \<longleftrightarrow>
     merchant row \<in> CleanMerchant ` set sp
     \<and> row_total row = \<bar>f_round ops 2 (g_sum ops (map Amount (filter (\<lambda>r. CleanMerchant r = merchant row) sp)))\<bar>
     \<and> row_count row = length (filter (\<lambda>r. CleanMerchant r = merchant row) sp)"
  (is "?L \<longleftrightarrow> ?R")
proof
  assume ?L
  then obtain k g where kg: "(k, g) \<in> set (groupby CleanMerchant sp)"
    and row: "row = \<lparr>merchant = k, row_total = \<bar>f_round ops 2 (g_sum ops (map Amount g))\<bar>,
                      row_count = length g\<rparr>"
    unfolding merchant_spending_def set_sort_total_desc by auto
  from kg have "k \<in> CleanMerchant ` set sp" and "g = filter (\<lambda>r. CleanMerchant r = k) sp"
    by (simp_all add: in_groupby)
  then show ?R using row by simp
next
  assume r: ?R
  let ?g = "filter (\<lambda>r. CleanMerchant r = merchant row) sp"
  have "(merchant row, ?g) \<in> set (groupby CleanMerchant sp)" using r by (simp add: in_groupby)
  moreover have "row = \<lparr>merchant = merchant row,
       row_total = \<bar>f_round ops 2 (g_sum ops (map Amount ?g))\<bar>, row_count = length ?g\<rparr>"
    using r by simp
  ultimately show ?L
    unfolding merchant_spending_def set_sort_total_desc by force
qed

lemma distinct_merchant_spending: "distinct (map merchant (merchant_spending ops sp))"
proof -
  define rows where "rows = map (\<lambda>(m, g). \<lparr>merchant = m,
      row_total = \<bar>f_round ops 2 (g_sum ops (map Amount g))\<bar>, row_count = length g\<rparr>)
      (groupby CleanMerchant sp)"
  have m: "map merchant rows = map fst (groupby CleanMerchant sp)"
    unfolding rows_def by (simp add: comp_def case_prod_unfold)
  have "distinct (map merchant rows)" unfolding m by (rule distinct_groupby)
  then have "distinct rows \<and> inj_on merchant (set rows)" by (simp only: distinct_map)
  then have "distinct (map merchant (sort_total_desc rows))"
    by (simp only: distinct_map distinct_sort_total_desc set_sort_total_desc)
  then show ?thesis unfolding merchant_spending_def rows_def .
qed

lemma merchants_merchant_spending: "merchant ` set (merchant_spending ops sp) = CleanMerchant ` set sp"
proof -
  have "merchant ` set (merchant_spending ops sp) = set (map fst (groupby CleanMerchant sp))"
    unfolding merchant_spending_def set_sort_total_desc
    by (simp add: image_image case_prod_unfold)
  then show ?thesis by (simp only: fst_groupby set_sort set_remdups set_map)
qed

lemma length_merchant_spending:
  "length (merchant_spending ops sp) = length (groupby CleanMerchant sp)"
  by (simp add: merchant_spending_def length_sort_total_desc)

lemma merchant_spending_eq_Nil: "merchant_spending ops sp = [] \<longleftrightarrow> sp = []"
  using length_merchant_spending [of ops sp] groupby_eq_Nil [of CleanMerchant sp]
  by (metis length_0_conv)

lemma spending_filter_month:
  "filter (\<lambda>r. Amount r < 0) (filter (\<lambda>r. MonthName r = m) dfp) = spending_in_month m dfp"
  by (simp add: spending_in_month_def)

lemma keys_spending_report:
  "fst ` set (create_spending_report ops dfp) = {m. spending_in_month m dfp \<noteq> []}"
proof -
  have "set (map fst (create_spending_report ops dfp))
      = {m \<in> MonthName ` set dfp. spending_in_month m dfp \<noteq> []}"
    by (simp only: fst_spending_report set_filter set_sort set_remdups set_map)
  also have "\<dots> = {m. spending_in_month m dfp \<noteq> []}"
    using spending_in_month_nonempty by blast
  finally show ?thesis by simp
qed

lemma monthly_totals_lookup:
  assumes "m \<in> MonthName ` set dfp"
  shows "\<exists>st. map_of (calculate_monthly_totals ops dfp) m = Some st
     \<and> spending st = \<bar>series_sum ops (map Amount (spending_in_month m dfp))\<bar>"
proof -
  from monthly_totals_exists [OF assms] obtain st
    where st: "(m, st) \<in> set (calculate_monthly_totals ops dfp)" by blast
  then have "map_of (calculate_monthly_totals ops dfp) m = Some st"
    using distinct_monthly_totals by simp
  moreover have "spending st = \<bar>series_sum ops (map Amount (spending_in_month m dfp))\<bar>"
    using in_monthly_totals(3) [OF st] by (simp only: spending_filter_month)
  ultimately show ?thesis by blast
qed

lemma abs_round_symmetric:
  assumes "\<forall>x. f_round ops 2 (- x) = - f_round ops 2 x"
    and "\<forall>x. 0 \<le> x \<longrightarrow> 0 \<le> f_round ops 2 x"
  shows "\<bar>f_round ops 2 s\<bar> = f_round ops 2 \<bar>s\<bar>"
proof (cases "0 \<le> s")
  case True
  then have "0 \<le> f_round ops 2 s" using assms(2) by blast
  then show ?thesis using True by simp
next
  case False
  then have "0 \<le> f_round ops 2 (- s)" using assms(2) by simp
  then have "f_round ops 2 s \<le> 0" using assms(1) by simp
  then show ?thesis using False assms(1) by simp
qed

lemma report_rows:
  assumes "(m, rows) \<in> set (create_spending_report ops dfp)"
  shows "distinct (map merchant rows)"
    and "merchant ` set rows = CleanMerchant ` set (spending_in_month m dfp)"
    and "\<forall>row\<in>set rows.
           row_total row
             = \<bar>f_round ops 2 (g_sum ops (map Amount (merchant_in_month m (merchant row) dfp)))\<bar>
           \<and> row_count row = length (merchant_in_month m (merchant row) dfp)"
    and "sorted_wrt (\<lambda>a b. b \<le> a) (map row_total rows)"
proof -
  from assms have rows: "rows = merchant_spending ops (spending_in_month m dfp)"
    by (simp add: in_spending_report)
  show "distinct (map merchant rows)" unfolding rows by (rule distinct_merchant_spending)
  show "merchant ` set rows = CleanMerchant ` set (spending_in_month m dfp)"
    unfolding rows by (rule merchants_merchant_spending)
  show "\<forall>row\<in>set rows.
           row_total row
             = \<bar>f_round ops 2 (g_sum ops (map Amount (merchant_in_month m (merchant row) dfp)))\<bar>
           \<and> row_count row = length (merchant_in_month m (merchant row) dfp)"
    unfolding rows merchant_in_month_def by (simp add: in_merchant_spending)
  show "sorted_wrt (\<lambda>a b. b \<le> a) (map row_total rows)"
    unfolding rows merchant_spending_def by (rule sorted_sort_total_desc)
qed

text \<open>
  C7.  The spending report has one entry per month that has a record with a negative
  amount, and no other.  A month's entry has one row per clean merchant of those records;
  the row's total is the absolute value of the merchant's summed negative amounts of the
  month rounded to 2 decimal places (the sum is rounded, then its absolute value is
  taken; with a rounding that is symmetric about zero, as numpy's is, this is the
  rounded absolute value), its count the number of these records; the rows are in
  descending order of total.  A month whose records have no negative amount is not in
  the report, and is in the monthly totals, with spending 0.
\<close>

theorem C7_spending_report:
  "distinct (map fst (create_spending_report ops dfp))
   \<and> fst ` set (create_spending_report ops dfp) = {m. spending_in_month m dfp \<noteq> []}
   \<and> (\<forall>(m, rows)\<in>set (create_spending_report ops dfp).
        distinct (map merchant rows)
        \<and> merchant ` set rows = CleanMerchant ` set (spending_in_month m dfp)
        \<and> (\<forall>row\<in>set rows.
             row_total row
               = \<bar>f_round ops 2 (g_sum ops (map Amount (merchant_in_month m (merchant row) dfp)))\<bar>
             \<and> row_count row = length (merchant_in_month m (merchant row) dfp)
             \<and> ((\<forall>x. f_round ops 2 (- x) = - f_round ops 2 x)
                  \<and> (\<forall>x. 0 \<le> x \<longrightarrow> 0 \<le> f_round ops 2 x) \<longrightarrow>
                 row_total row
                   = f_round ops 2 \<bar>g_sum ops (map Amount (merchant_in_month m (merchant row) dfp))\<bar>))
        \<and> sorted_wrt (\<lambda>a b. b \<le> a) (map row_total rows))
   \<and> (\<forall>m\<in>MonthName ` set dfp. spending_in_month m dfp = [] \<longrightarrow>
        m \<notin> fst ` set (create_spending_report ops dfp)
        \<and> (\<exists>st. map_of (calculate_monthly_totals ops dfp) m = Some st \<and> spending st = 0))"
proof (intro conjI)
  show "distinct (map fst (create_spending_report ops dfp))" by (rule distinct_spending_report)
  show "fst ` set (create_spending_report ops dfp) = {m. spending_in_month m dfp \<noteq> []}"
    by (rule keys_spending_report)
  show "\<forall>(m, rows)\<in>set (create_spending_report ops dfp).
        distinct (map merchant rows)
        \<and> merchant ` set rows = CleanMerchant ` set (spending_in_month m dfp)
        \<and> (\<forall>row\<in>set rows.
             row_total row
               = \<bar>f_round ops 2 (g_sum ops (map Amount (merchant_in_month m (merchant row) dfp)))\<bar>
             \<and> row_count row = length (merchant_in_month m (merchant row) dfp)
             \<and> ((\<forall>x. f_round ops 2 (- x) = - f_round ops 2 x)
                  \<and> (\<forall>x. 0 \<le> x \<longrightarrow> 0 \<le> f_round ops 2 x) \<longrightarrow>
                 row_total row
                   = f_round ops 2 \<bar>g_sum ops (map Amount (merchant_in_month m (merchant row) dfp))\<bar>))
        \<and> sorted_wrt (\<lambda>a b. b \<le> a) (map row_total rows)"
  proof (clarify, intro conjI ballI impI)
    fix m rows
    assume a: "(m, rows) \<in> set (create_spending_report ops dfp)"
    show "distinct (map merchant rows)" by (rule report_rows(1) [OF a])
    show "merchant ` set rows = CleanMerchant ` set (spending_in_month m dfp)"
      by (rule report_rows(2) [OF a])
    show "sorted_wrt (\<lambda>a b. b \<le> a) (map row_total rows)" by (rule report_rows(4) [OF a])
    fix row
    assume r: "row \<in> set rows"
    show t: "row_total row
        = \<bar>f_round ops 2 (g_sum ops (map Amount (merchant_in_month m (merchant row) dfp)))\<bar>"
      using report_rows(3) [OF a] r by blast
    show "row_count row = length (merchant_in_month m (merchant row) dfp)"
      using report_rows(3) [OF a] r by blast
    assume "(\<forall>x. f_round ops 2 (- x) = - f_round ops 2 x)
        \<and> (\<forall>x. 0 \<le> x \<longrightarrow> 0 \<le> f_round ops 2 x)"
    then show "row_total row
        = f_round ops 2 \<bar>g_sum ops (map Amount (merchant_in_month m (merchant row) dfp))\<bar>"
      unfolding t using abs_round_symmetric by blast
  qed
  show "\<forall>m\<in>MonthName ` set dfp. spending_in_month m dfp = [] \<longrightarrow>
        m \<notin> fst ` set (create_spending_report ops dfp)
        \<and> (\<exists>st. map_of (calculate_monthly_totals ops dfp) m = Some st \<and> spending st = 0)"
  proof (intro ballI impI conjI)
    fix m
    assume m: "m \<in> MonthName ` set dfp" and e: "spending_in_month m dfp = []"
    show "m \<notin> fst ` set (create_spending_report ops dfp)"
      unfolding keys_spending_report using e by simp
    from monthly_totals_lookup [OF m, of ops] e
    show "\<exists>st. map_of (calculate_monthly_totals ops dfp) m = Some st \<and> spending st = 0"
      by (auto simp: series_sum_def)
  qed
qed

lemma np_round_nonneg: "0 \<le> x \<Longrightarrow> 0 \<le> np_round n x"
proof -
  assume "0 \<le> x"
  then have "\<bar>np_round n x\<bar> = np_round n x" using np_round_abs [of n x] by simp
  then show ?thesis by linarith
qed

lemma exact_round_symmetric:
  "(\<forall>x. f_round exact 2 (- x) = - f_round exact 2 x)
   \<and> (\<forall>x. 0 \<le> x \<longrightarrow> 0 \<le> f_round exact 2 x)"
  by (simp add: exact_def np_round_minus np_round_nonneg)

lemma ex_spending_report:
  "create_spending_report exact (clean_data ex_df) = [(''March 2024'', ex_report)]"
  by code_simp

lemma ex_deposit_only:
  "map MonthName (clean_data [ex_deposit]) = [''March 2024'']"
  "spending_in_month ''March 2024'' (clean_data [ex_deposit]) = []"
  by code_simp+

theorem C7_spending_report_witness:
  "(''March 2024'', ex_report) \<in> set (create_spending_report exact (clean_data ex_df))
   \<and> hd ex_report \<in> set ex_report
   \<and> merchant (hd ex_report) = ''Uber Eats''
   \<and> row_total (hd ex_report) = 4225 / 100
   \<and> row_total (hd ex_report)
       = \<bar>f_round exact 2 (g_sum exact (map Amount
            (merchant_in_month ''March 2024'' ''Uber Eats'' (clean_data ex_df))))\<bar>
   \<and> row_total (hd ex_report)
       = f_round exact 2 \<bar>g_sum exact (map Amount
            (merchant_in_month ''March 2024'' ''Uber Eats'' (clean_data ex_df)))\<bar>
   \<and> row_count (hd ex_report)
       = length (merchant_in_month ''March 2024'' ''Uber Eats'' (clean_data ex_df))
   \<and> sorted_wrt (\<lambda>a b. b \<le> a) (map row_total ex_report)
   \<and> ''March 2024'' \<in> MonthName ` set (clean_data [ex_deposit])
   \<and> spending_in_month ''March 2024'' (clean_data [ex_deposit]) = []
   \<and> ''March 2024'' \<notin> fst ` set (create_spending_report exact (clean_data [ex_deposit]))
   \<and> (\<exists>st. map_of (calculate_monthly_totals exact (clean_data [ex_deposit])) ''March 2024''
              = Some st \<and> spending st = 0)"
proof -
  have m: "(''March 2024'', ex_report) \<in> set (create_spending_report exact (clean_data ex_df))"
    by (simp add: ex_spending_report)
  have r: "hd ex_report \<in> set ex_report" "merchant (hd ex_report) = ''Uber Eats''"
    "row_total (hd ex_report) = 4225 / 100"
    by (simp_all add: ex_report_def)
  note t = C7_spending_report [of exact "clean_data ex_df"]
  from t m have
    "(\<forall>row\<in>set ex_report.
        row_total row
          = \<bar>f_round exact 2 (g_sum exact (map Amount
               (merchant_in_month ''March 2024'' (merchant row) (clean_data ex_df))))\<bar>
        \<and> row_count row = length (merchant_in_month ''March 2024'' (merchant row) (clean_data ex_df))
        \<and> ((\<forall>x. f_round exact 2 (- x) = - f_round exact 2 x)
             \<and> (\<forall>x. 0 \<le> x \<longrightarrow> 0 \<le> f_round exact 2 x) \<longrightarrow>
            row_total row
              = f_round exact 2 \<bar>g_sum exact (map Amount
                  (merchant_in_month ''March 2024'' (merchant row) (clean_data ex_df)))\<bar>))
     \<and> sorted_wrt (\<lambda>a b. b \<le> a) (map row_total ex_report)"
    by blast
  with r(1) exact_round_symmetric have a:
    "row_total (hd ex_report)
       = \<bar>f_round exact 2 (g_sum exact (map Amount
            (merchant_in_month ''March 2024'' (merchant (hd ex_report)) (clean_data ex_df))))\<bar>
     \<and> row_total (hd ex_report)
       = f_round exact 2 \<bar>g_sum exact (map Amount
            (merchant_in_month ''March 2024'' (merchant (hd ex_report)) (clean_data ex_df)))\<bar>
     \<and> row_count (hd ex_report)
       = length (merchant_in_month ''March 2024'' (merchant (hd ex_report)) (clean_data ex_df))
     \<and> sorted_wrt (\<lambda>a b. b \<le> a) (map row_total ex_report)"
    by blast
  have k: "''March 2024'' \<in> MonthName ` set (clean_data [ex_deposit])"
  proof -
    have "''March 2024'' \<in> set (map MonthName (clean_data [ex_deposit]))"
      by (simp only: ex_deposit_only) simp
    then show ?thesis by simp
  qed
  note e = ex_deposit_only(2)
  from C7_spending_report [of exact "clean_data [ex_deposit]"] k e have b:
    "''March 2024'' \<notin> fst ` set (create_spending_report exact (clean_data [ex_deposit]))
     \<and> (\<exists>st. map_of (calculate_monthly_totals exact (clean_data [ex_deposit])) ''March 2024''
              = Some st \<and> spending st = 0)"
    by blast
  note a' = a [unfolded r(2)]
  from m r a' k e b show ?thesis by blast
qed

section \<open>Month labels\<close>

lemma digit_cases:
  assumes "k < (10::nat)"
  obtains "k = 0" | "k = 1" | "k = 2" | "k = 3" | "k = 4" | "k = 5" | "k = 6" | "k = 7"
    | "k = 8" | "k = 9"
proof -
  have "k = 0 \<or> k = 1 \<or> k = 2 \<or> k = 3 \<or> k = 4 \<or> k = 5 \<or> k = 6 \<or> k = 7 \<or> k = 8 \<or> k = 9"
    using assms by presburger
  then show thesis using that by blast
qed

lemma digit_val_nth: "k < 10 \<Longrightarrow> digit_val (digit_chars ! k) = k"
  by (erule digit_cases) (simp_all add: digit_chars_def digit_val_def)

lemma digit_val_digit: "digit_val (digit n) = n mod 10"
  by (simp add: digit_def digit_val_nth)

lemma isdigit_digit: "isdigit (digit n)"
proof -
  have "n mod 10 < length digit_chars" by (simp add: digit_chars_def)
  then show ?thesis unfolding isdigit_def digit_def by (rule nth_mem)
qed

lemma of_char_digit: "of_char (digit n) = 48 + n mod 10"
proof -
  have "k < 10 \<Longrightarrow> of_char (digit_chars ! k) = 48 + k" for k :: nat
    by (erule digit_cases) (simp_all add: digit_chars_def)
  then show ?thesis by (simp add: digit_def)
qed

lemma digit_neq_space: "digit n \<noteq> CHR '' ''"
proof
  assume "digit n = CHR '' ''"
  then have "(of_char (digit n) :: nat) = of_char (CHR '' '')" by simp
  then show False by (simp add: of_char_digit)
qed

lemma four_digits:
  assumes "y \<le> (9999::nat)"
  shows "10 * (10 * (10 * (y div 1000 mod 10) + y div 100 mod 10) + y div 10 mod 10) + y mod 10 = y"
proof -
  define c r2 r1 r0 where "c = y div 1000" and "r2 = y div 100 mod 10"
    and "r1 = y div 10 mod 10" and "r0 = y mod 10"
  define a b where "a = y div 10" and "b = y div 100"
  have d2: "y div 10 div 10 = y div 100" by (simp add: div_mult2_eq [symmetric])
  have d3: "y div 100 div 10 = y div 1000" by (simp add: div_mult2_eq [symmetric])
  have e1: "y = 10 * a + r0" unfolding a_def r0_def by simp
  have "y div 10 = 10 * (y div 10 div 10) + y div 10 mod 10" by simp
  then have e2: "a = 10 * b + r1" unfolding a_def b_def r1_def d2 .
  have "y div 100 = 10 * (y div 100 div 10) + y div 100 mod 10" by simp
  then have e3: "b = 10 * c + r2" unfolding b_def c_def r2_def d3 .
  have "y div 1000 < 10" using assms by simp
  then have m: "y div 1000 mod 10 = c" unfolding c_def by simp
  have "10 * (10 * (10 * c + r2) + r1) + r0 = y" using e1 e2 e3 by simp
  then show ?thesis unfolding m r2_def r1_def r0_def .
qed

lemma two_digits:
  assumes "m \<le> (99::nat)"
  shows "10 * (m div 10 mod 10) + m mod 10 = m"
proof -
  have "m div 10 < 10" using assms by simp
  then have "m div 10 mod 10 = m div 10" by simp
  then show ?thesis by simp
qed

lemma parse_nat_fmt_Y: "y \<le> 9999 \<Longrightarrow> parse_nat (fmt_Y y) = y"
proof -
  assume a: "y \<le> 9999"
  have "parse_nat (fmt_Y y)
      = 10 * (10 * (10 * (y div 1000 mod 10) + y div 100 mod 10) + y div 10 mod 10) + y mod 10"
    by (simp add: parse_nat_def fmt_Y_def digit_val_digit)
  then show ?thesis by (simp only: four_digits [OF a])
qed

lemma parse_nat_fmt_m: "m \<le> 99 \<Longrightarrow> parse_nat (fmt_m m) = m"
proof -
  assume a: "m \<le> 99"
  have "parse_nat (fmt_m m) = 10 * (m div 10 mod 10) + m mod 10"
    by (simp add: parse_nat_def fmt_m_def digit_val_digit)
  then show ?thesis by (simp only: two_digits [OF a])
qed

lemma fmt_Y_digits: "length (fmt_Y y) = 4" "list_all isdigit (fmt_Y y)"
  by (simp_all add: fmt_Y_def isdigit_digit)

lemma fmt_m_digits: "length (fmt_m m) = 2" "list_all isdigit (fmt_m m)"
  by (simp_all add: fmt_m_def isdigit_digit)

lemma split_first_space:
  "CHR '' '' \<notin> set n \<Longrightarrow> split_first '' '' (n @ CHR '' '' # rest) = n"
  by (induction n) auto

lemma month_cases:
  assumes "1 \<le> m" and "m \<le> (12::nat)"
  obtains "m = 1" | "m = 2" | "m = 3" | "m = 4" | "m = 5" | "m = 6" | "m = 7" | "m = 8"
    | "m = 9" | "m = 10" | "m = 11" | "m = 12"
proof -
  have "m = 1 \<or> m = 2 \<or> m = 3 \<or> m = 4 \<or> m = 5 \<or> m = 6 \<or> m = 7 \<or> m = 8 \<or> m = 9
      \<or> m = 10 \<or> m = 11 \<or> m = 12"
    using assms by presburger
  then show thesis using that by blast
qed

lemma fmt_B_props:
  assumes "1 \<le> m" and "m \<le> 12"
  shows "CHR '' '' \<notin> set (fmt_B m)" and "index_of (fmt_B m) month_names = Some (m - 1)"
  using assms(1,2) by (rule month_cases; simp add: fmt_B_def month_names_def)+

lemma to_datetime_fmt:
  assumes "1 \<le> m" and "m \<le> 12" and "y \<le> 9999"
  shows "to_datetime_B_Y (fmt_B m @ CHR '' '' # fmt_Y y) = Some (y, m)"
proof -
  note p = fmt_B_props [OF assms(1,2)]
  have n: "split_first '' '' (fmt_B m @ CHR '' '' # fmt_Y y) = fmt_B m"
    using p(1) by (rule split_first_space)
  have r: "drop (length (fmt_B m) + 1) (fmt_B m @ CHR '' '' # fmt_Y y) = fmt_Y y" by simp
  have "Suc (m - 1) = m" using assms(1) by simp
  then show ?thesis
    unfolding to_datetime_B_Y_def Let_def n r p(2)
    using assms(3) by (simp add: fmt_Y_digits parse_nat_fmt_Y)
qed

lemma to_datetime_strftime:
  "valid_date d \<Longrightarrow> to_datetime_B_Y (strftime_B_Y d) = Some (year d, month d)"
  unfolding valid_date_def strftime_B_Y_def by (simp add: to_datetime_fmt)

lemma for_each_Inr:
  "\<forall>x\<in>set xs. f x = Inr (g x) \<Longrightarrow> for_each f xs = Inr (map g xs)"
  by (induction xs) auto

lemma to_datetime_Some: "to_datetime_B_Y s = Some t \<Longrightarrow> to_datetime s = Inr t"
  by (simp add: to_datetime_def)

lemma sorted_months_Inr:
  assumes "\<forall>k\<in>set keys. to_datetime_B_Y k \<noteq> None"
  shows "sorted_months keys
     = Inr (map snd (sort_key fst (zip (map (\<lambda>k. the (to_datetime_B_Y k)) keys) keys)))"
proof -
  have "\<forall>k\<in>set keys. to_datetime k = Inr (the (to_datetime_B_Y k))"
    using assms by (auto simp: to_datetime_def)
  then have "for_each to_datetime keys = Inr (map (\<lambda>k. the (to_datetime_B_Y k)) keys)"
    by (rule for_each_Inr)
  then show ?thesis by (simp add: sorted_months_def)
qed

lemma clean_data_labels:
  assumes "\<forall>r\<in>set df. valid_date (Date r)" and "t \<in> set (clean_data df)"
  shows "to_datetime_B_Y (MonthName t) = Some (Month t)"
proof -
  from assms(2) obtain r where r: "r \<in> set df" and t: "t = add_columns r"
    by (auto simp: clean_data_def)
  have "valid_date (Date r)" using assms(1) r by blast
  then show ?thesis unfolding t
    by (simp add: to_datetime_strftime add_columns_def raw_transaction.extend_def)
qed

lemma monthly_totals_labels:
  assumes "\<forall>r\<in>set df. valid_date (Date r)"
    and "k \<in> set (map fst (calculate_monthly_totals ops (clean_data df)))"
  shows "to_datetime_B_Y k \<noteq> None"
proof -
  from assms(2) have "k \<in> MonthName ` set (clean_data df)"
    by (simp only: fst_monthly_totals set_sort set_remdups set_map)
  then obtain t where "t \<in> set (clean_data df)" and "k = MonthName t" by blast
  then show ?thesis using clean_data_labels [OF assms(1)] by simp
qed

lemma monthly_totals_eq_Nil: "calculate_monthly_totals ops dfp = [] \<longleftrightarrow> dfp = []"
  by (simp add: calculate_monthly_totals_def groupby_eq_Nil)

lemma length_monthly_totals:
  "length (calculate_monthly_totals ops dfp) = card (MonthName ` set dfp)"
proof -
  have "length (calculate_monthly_totals ops dfp) = length (map fst (calculate_monthly_totals ops dfp))"
    by simp
  also have "\<dots> = length (remdups (map MonthName dfp))"
    by (simp only: fst_monthly_totals length_sort)
  also have "\<dots> = card (set (map MonthName dfp))" by (simp only: length_remdups_card_conv)
  finally show ?thesis by simp
qed

text \<open>
  C1, as stated, fails: with one record, a pending one, there is no posted record and no
  month, and \<open>print_monthly_summary\<close> raises \<open>ZeroDivisionError\<close>.
\<close>

theorem C1_empty_counterexample:
  "clean_data [ex_pending] = []
   \<and> calculate_monthly_totals exact (clean_data [ex_pending]) = []
   \<and> print_monthly_summary exact (calculate_monthly_totals exact (clean_data [ex_pending]))
        (clean_data [ex_pending]) = Inl ZeroDivisionError"
proof -
  have e: "clean_data [ex_pending] = []"
    by (simp add: clean_data_def add_columns_def raw_transaction.extend_def ex_pending_def
        mk_row_def)
  have m: "calculate_monthly_totals exact [] = []"
    by (simp add: calculate_monthly_totals_def groupby_def)
  have "print_monthly_summary exact [] [] = Inl ZeroDivisionError"
    by (simp add: print_monthly_summary_def sorted_months_def)
  then show ?thesis by (simp add: e m)
qed

text \<open>
  C1, amended.  When there is at least one posted record (and so at least one month),
  \<open>print_monthly_summary\<close> raises nothing: the number of months it divides by is the
  number of distinct months of the posted records, which is not zero, and each
  average-per-month figure is the corresponding total divided by it.
\<close>

theorem C1_summary_with_months:
  "(\<forall>r\<in>set df. valid_date (Date r)) \<and> clean_data df \<noteq> [] \<longrightarrow>
     (\<exists>tbl. print_monthly_summary ops (calculate_monthly_totals ops (clean_data df)) (clean_data df)
              = Inr tbl
        \<and> 0 < length (calculate_monthly_totals ops (clean_data df))
        \<and> length (calculate_monthly_totals ops (clean_data df))
            = card (MonthName ` set (clean_data df))
        \<and> tbl_average tbl
            = (case tbl_total tbl of
                 (td, ts, tn, c) \<Rightarrow>
                   (f_div ops td (of_nat (length (calculate_monthly_totals ops (clean_data df)))),
                    f_div ops ts (of_nat (length (calculate_monthly_totals ops (clean_data df)))),
                    f_div ops tn (of_nat (length (calculate_monthly_totals ops (clean_data df)))),
                    f_div ops (of_nat c)
                      (of_nat (length (calculate_monthly_totals ops (clean_data df)))))))"
proof (intro impI, elim conjE)
  assume v: "\<forall>r\<in>set df. valid_date (Date r)" and ne: "clean_data df \<noteq> []"
  let ?ms = "calculate_monthly_totals ops (clean_data df)"
  have k: "\<forall>k\<in>set (map fst ?ms). to_datetime_B_Y k \<noteq> None"
    using monthly_totals_labels [OF v] by blast
  have n: "length ?ms \<noteq> 0" using ne by (simp add: monthly_totals_eq_Nil)
  have n': "0 < length ?ms" using n by simp
  have c: "length ?ms = card (MonthName ` set (clean_data df))" by (rule length_monthly_totals)
  note s = sorted_months_Inr [OF k]
  show "\<exists>tbl. print_monthly_summary ops ?ms (clean_data df) = Inr tbl
        \<and> 0 < length ?ms
        \<and> length ?ms = card (MonthName ` set (clean_data df))
        \<and> tbl_average tbl
            = (case tbl_total tbl of
                 (td, ts, tn, c) \<Rightarrow>
                   (f_div ops td (of_nat (length ?ms)), f_div ops ts (of_nat (length ?ms)),
                    f_div ops tn (of_nat (length ?ms)),
                    f_div ops (of_nat c) (of_nat (length ?ms))))"
    unfolding print_monthly_summary_def s using n n' c
    by (simp add: Let_def)
qed

lemma ex_print_monthly_summary:
  "print_monthly_summary exact (calculate_monthly_totals exact (clean_data ex_df)) (clean_data ex_df)
   = Inr ex_table"
  by code_simp

lemma ex_df_valid: "list_all (\<lambda>r. valid_date (Date r)) ex_df"
  by code_simp

lemma ex_df_posted: "clean_data ex_df \<noteq> []"
  by code_simp

theorem C1_summary_with_months_witness:
  "list_all (\<lambda>r. valid_date (Date r)) ex_df
   \<and> clean_data ex_df \<noteq> []
   \<and> print_monthly_summary exact (calculate_monthly_totals exact (clean_data ex_df))
        (clean_data ex_df) = Inr ex_table
   \<and> length (calculate_monthly_totals exact (clean_data ex_df)) = 1
   \<and> tbl_average ex_table
       = (f_div exact 1500 1, f_div exact 52 1, f_div exact 1448 1, f_div exact 3 1)"
proof -
  have v: "\<forall>r\<in>set ex_df. valid_date (Date r)" using ex_df_valid by (simp add: list_all_iff)
  from C1_summary_with_months [of ex_df exact] v ex_df_posted
  obtain tbl where t: "print_monthly_summary exact (calculate_monthly_totals exact (clean_data ex_df))
        (clean_data ex_df) = Inr tbl"
    and a: "tbl_average tbl
            = (case tbl_total tbl of
                 (td, ts, tn, c) \<Rightarrow>
                   (f_div exact td (of_nat (length (calculate_monthly_totals exact (clean_data ex_df)))),
                    f_div exact ts (of_nat (length (calculate_monthly_totals exact (clean_data ex_df)))),
                    f_div exact tn (of_nat (length (calculate_monthly_totals exact (clean_data ex_df)))),
                    f_div exact (of_nat c)
                      (of_nat (length (calculate_monthly_totals exact (clean_data ex_df))))))"
    by blast
  from t have tbl: "tbl = ex_table" by (simp add: ex_print_monthly_summary)
  have l: "length (calculate_monthly_totals exact (clean_data ex_df)) = 1"
    by (simp add: ex_monthly_totals)
  have "tbl_average ex_table
       = (f_div exact 1500 1, f_div exact 52 1, f_div exact 1448 1, f_div exact 3 1)"
    using a unfolding tbl l by (simp add: ex_table_def)
  then show ?thesis using ex_df_valid ex_df_posted ex_print_monthly_summary l by blast
qed

section \<open>The exported monthly summary\<close>

lemma foldl_digits:
  "foldl (\<lambda>a c. 10 * a + digit_val c) a cs
   = a * 10 ^ length cs + foldl (\<lambda>a c. 10 * a + digit_val c) 0 cs"
proof (induction cs arbitrary: a)
  case Nil
  then show ?case by simp
next
  case (Cons c cs)
  have "foldl (\<lambda>a c. 10 * a + digit_val c) a (c # cs)
      = foldl (\<lambda>a c. 10 * a + digit_val c) (10 * a + digit_val c) cs" by simp
  also have "\<dots> = (10 * a + digit_val c) * 10 ^ length cs
      + foldl (\<lambda>a c. 10 * a + digit_val c) 0 cs" by (rule Cons.IH)
  finally have l: "foldl (\<lambda>a c. 10 * a + digit_val c) a (c # cs)
      = (10 * a + digit_val c) * 10 ^ length cs + foldl (\<lambda>a c. 10 * a + digit_val c) 0 cs" .
  have "foldl (\<lambda>a c. 10 * a + digit_val c) 0 (c # cs)
      = foldl (\<lambda>a c. 10 * a + digit_val c) (digit_val c) cs" by simp
  also have "\<dots> = digit_val c * 10 ^ length cs + foldl (\<lambda>a c. 10 * a + digit_val c) 0 cs"
    by (rule Cons.IH)
  finally have r: "foldl (\<lambda>a c. 10 * a + digit_val c) 0 (c # cs)
      = digit_val c * 10 ^ length cs + foldl (\<lambda>a c. 10 * a + digit_val c) 0 cs" .
  show ?case unfolding l r by (simp add: algebra_simps)
qed

lemma parse_nat_Cons: "parse_nat (c # cs) = digit_val c * 10 ^ length cs + parse_nat cs"
  unfolding parse_nat_def using foldl_digits [of "digit_val c" cs] by simp

lemma isdigit_range: "isdigit c \<Longrightarrow> 48 \<le> (of_char c :: nat) \<and> (of_char c :: nat) \<le> 57"
  by (auto simp: isdigit_def digit_chars_def)

lemma digit_val_le: "isdigit c \<Longrightarrow> digit_val c \<le> 9"
  using isdigit_range [of c] unfolding digit_val_def by linarith

lemma digit_less_iff:
  assumes "isdigit a" and "isdigit b"
  shows "a < b \<longleftrightarrow> digit_val a < digit_val b" and "a = b \<longleftrightarrow> digit_val a = digit_val b"
proof -
  note ra = isdigit_range [OF assms(1)] and rb = isdigit_range [OF assms(2)]
  have "a < b \<longleftrightarrow> (of_char a :: nat) < of_char b" by (simp add: less_char_def)
  then show "a < b \<longleftrightarrow> digit_val a < digit_val b"
    using ra rb unfolding digit_val_def by linarith
  have "a = b \<longleftrightarrow> (of_char a :: nat) = of_char b" by simp
  then show "a = b \<longleftrightarrow> digit_val a = digit_val b"
    using ra rb unfolding digit_val_def by linarith
qed

lemma parse_nat_bound: "list_all isdigit cs \<Longrightarrow> parse_nat cs < 10 ^ length cs"
proof (induction cs)
  case Nil
  then show ?case by (simp add: parse_nat_def)
next
  case (Cons c cs)
  then have d: "digit_val c \<le> 9" and p: "parse_nat cs < 10 ^ length cs"
    by (simp_all add: digit_val_le)
  define P :: nat where "P = 10 ^ length cs"
  have "digit_val c * P \<le> 9 * P" using d by simp
  then have "digit_val c * P + parse_nat cs < 10 * P" using p unfolding P_def by linarith
  then show ?case unfolding parse_nat_Cons P_def by simp
qed

lemma positional_less:
  fixes P :: nat
  assumes "p < P" and "q < P"
  shows "a * P + p < b * P + q \<longleftrightarrow> a < b \<or> (a = b \<and> p < q)"
proof (cases "a < b")
  case True
  then have "Suc a * P \<le> b * P" by (intro mult_le_mono1) simp
  then show ?thesis using True assms by simp
next
  case False
  show ?thesis
  proof (cases "a = b")
    case True
    then show ?thesis by simp
  next
    case ne: False
    then have "b < a" using False by simp
    then have "Suc b * P \<le> a * P" by (intro mult_le_mono1) simp
    then show ?thesis using False ne assms by simp
  qed
qed

lemma digits_less_iff:
  assumes "length xs = length ys" and "list_all isdigit xs" and "list_all isdigit ys"
  shows "xs < ys \<longleftrightarrow> parse_nat xs < parse_nat ys"
  using assms
proof (induction xs ys rule: list_induct2)
  case Nil
  then show ?case by (simp add: parse_nat_def)
next
  case (Cons x xs y ys)
  then have dx: "isdigit x" and dy: "isdigit y" and ax: "list_all isdigit xs"
    and ay: "list_all isdigit ys" by simp_all
  have ih: "xs < ys \<longleftrightarrow> parse_nat xs < parse_nat ys" using Cons.IH ax ay by simp
  have px: "parse_nat xs < 10 ^ length xs" using ax by (rule parse_nat_bound)
  have py: "parse_nat ys < 10 ^ length xs" using ay Cons.hyps parse_nat_bound [of ys] by simp
  have "x # xs < y # ys \<longleftrightarrow> x < y \<or> (x = y \<and> xs < ys)" by simp
  also have "\<dots> \<longleftrightarrow> digit_val x < digit_val y
      \<or> (digit_val x = digit_val y \<and> parse_nat xs < parse_nat ys)"
    using digit_less_iff [OF dx dy] ih by simp
  also have "\<dots> \<longleftrightarrow> digit_val x * 10 ^ length xs + parse_nat xs
      < digit_val y * 10 ^ length xs + parse_nat ys"
    using positional_less [OF px py] by simp
  finally show ?case unfolding parse_nat_Cons using Cons.hyps by simp
qed

lemma append_less_iff:
  fixes a b :: "char list"
  assumes "length a = length b"
  shows "a @ u < b @ v \<longleftrightarrow> a < b \<or> (a = b \<and> u < v)"
  using assms by (induction a b rule: list_induct2) auto

lemma strftime_Y_m_less:
  assumes "y1 \<le> 9999" and "m1 \<le> 99" and "y2 \<le> 9999" and "m2 \<le> 99"
  shows "strftime_Y_m (y1, m1) < strftime_Y_m (y2, m2) \<longleftrightarrow> (y1, m1) < (y2, m2)"
proof -
  have Y: "fmt_Y y1 < fmt_Y y2 \<longleftrightarrow> y1 < y2"
    using digits_less_iff [of "fmt_Y y1" "fmt_Y y2"] assms
    by (simp add: fmt_Y_digits parse_nat_fmt_Y)
  have M: "fmt_m m1 < fmt_m m2 \<longleftrightarrow> m1 < m2"
    using digits_less_iff [of "fmt_m m1" "fmt_m m2"] assms
    by (simp add: fmt_m_digits parse_nat_fmt_m)
  have E: "fmt_Y y1 = fmt_Y y2 \<longleftrightarrow> y1 = y2"
    using assms parse_nat_fmt_Y by metis
  have "strftime_Y_m (y1, m1) < strftime_Y_m (y2, m2)
      \<longleftrightarrow> fmt_Y y1 @ (CHR ''-'' # fmt_m m1) < fmt_Y y2 @ (CHR ''-'' # fmt_m m2)"
    by (simp add: strftime_Y_m_def)
  also have "\<dots> \<longleftrightarrow> fmt_Y y1 < fmt_Y y2
      \<or> (fmt_Y y1 = fmt_Y y2 \<and> CHR ''-'' # fmt_m m1 < CHR ''-'' # fmt_m m2)"
    by (rule append_less_iff) (simp add: fmt_Y_digits)
  also have "\<dots> \<longleftrightarrow> y1 < y2 \<or> (y1 = y2 \<and> m1 < m2)" unfolding Y E by (simp add: M)
  also have "\<dots> \<longleftrightarrow> (y1, m1) < (y2, m2)" by (auto simp: less_prod_def)
  finally show ?thesis .
qed

lemma strftime_Y_m_le:
  assumes "y1 \<le> 9999" and "m1 \<le> 99" and "y2 \<le> 9999" and "m2 \<le> 99"
  shows "strftime_Y_m (y1, m1) \<le> strftime_Y_m (y2, m2) \<longleftrightarrow> (y1, m1) \<le> (y2, m2)"
proof -
  have "strftime_Y_m (y2, m2) < strftime_Y_m (y1, m1) \<longleftrightarrow> (y2, m2) < (y1, m1)"
    using assms by (intro strftime_Y_m_less)
  then show ?thesis by (simp only: linorder_not_less [symmetric])
qed

lemma parse_Y_m_strftime:
  assumes "y \<le> 9999" and "m \<le> 99"
  shows "parse_Y_m (strftime_Y_m (y, m)) = Some (y, m)"
proof -
  let ?s = "strftime_Y_m (y, m)"
  have s: "?s = fmt_Y y @ CHR ''-'' # fmt_m m" by (simp add: strftime_Y_m_def)
  have l: "length ?s = 7" unfolding s by (simp add: fmt_Y_digits fmt_m_digits)
  have t: "take 4 ?s = fmt_Y y" unfolding s by (simp add: fmt_Y_digits)
  have d: "drop 5 ?s = fmt_m m" unfolding s by (simp add: fmt_Y_def)
  have h: "?s ! 4 = CHR ''-''" unfolding s by (simp add: fmt_Y_def)
  show ?thesis
    unfolding parse_Y_m_def l t d h
    using assms by (simp add: fmt_Y_digits fmt_m_digits parse_nat_fmt_Y parse_nat_fmt_m)
qed

lemma monthly_totals_label_month:
  assumes "\<forall>r\<in>set df. valid_date (Date r)"
    and "(label, st) \<in> set (calculate_monthly_totals ops (clean_data df))"
  shows "\<exists>y m. to_datetime_B_Y label = Some (y, m) \<and> y \<le> 9999 \<and> 1 \<le> m \<and> m \<le> 12
           \<and> label = fmt_B m @ CHR '' '' # fmt_Y y"
proof -
  from assms(2) have "label \<in> MonthName ` set (clean_data df)" by (rule in_monthly_totals(1))
  then obtain r where r: "r \<in> set df" and l: "label = strftime_B_Y (Date r)"
    by (auto simp: clean_data_def)
  have v: "valid_date (Date r)" using assms(1) r by blast
  then have "to_datetime_B_Y label = Some (year (Date r), month (Date r))"
    unfolding l by (rule to_datetime_strftime)
  moreover have "year (Date r) \<le> 9999 \<and> 1 \<le> month (Date r) \<and> month (Date r) \<le> 12"
    using v by (simp add: valid_date_def)
  moreover have "label = fmt_B (month (Date r)) @ CHR '' '' # fmt_Y (year (Date r))"
    unfolding l by (simp add: strftime_B_Y_def)
  ultimately show ?thesis by blast
qed

lemma distinct_map_sort_key:
  "distinct (map f (sort_key k xs)) = distinct (map f xs)"
  by (simp add: distinct_map)

lemma summary_row_stats:
  "\<lparr>deposits = deposits st, spending = spending st, net = net st,
     transaction_count = transaction_count st\<rparr> = (st :: stats)"
  by simp

lemma for_each_to_datetime:
  assumes "\<forall>(label, x)\<in>set xs. to_datetime_B_Y label \<noteq> None"
  shows "for_each (\<lambda>(label, x).
            (case to_datetime label of Inl e \<Rightarrow> Inl e | Inr t \<Rightarrow> Inr (h t x))) xs
         = Inr (map (\<lambda>(label, x). h (the (to_datetime_B_Y label)) x) xs)"
  using assms by (induction xs) (auto simp: to_datetime_def)

lemma export_summary_rows:
  fixes ops :: arith and df :: "raw_transaction list"
  assumes v: "\<forall>r\<in>set df. valid_date (Date r)" and ne: "clean_data df \<noteq> []"
  defines "ms \<equiv> calculate_monthly_totals ops (clean_data df)"
  defines "E \<equiv> \<lambda>(label, st). \<lparr>s_Month = strftime_Y_m (the (to_datetime_B_Y label)),
      s_Deposits = deposits st, s_Spending = spending st, s_Net = net st,
      s_Transaction_Count = transaction_count st\<rparr>"
  shows "export_monthly_summary ms = Inr (sort_key s_Month (map E ms))"
    and "map (\<lambda>r. (parse_Y_m (s_Month r),
               \<lparr>deposits = s_Deposits r, spending = s_Spending r, net = s_Net r,
                transaction_count = s_Transaction_Count r\<rparr>)) (map E ms) = month_keyed ms"
    and "distinct (map fst (month_keyed ms))"
    and "\<forall>r\<in>set (map E ms). \<exists>y m. y \<le> 9999 \<and> 1 \<le> m \<and> m \<le> 12
           \<and> s_Month r = strftime_Y_m (y, m)"
proof -
  have lab: "\<exists>y m. to_datetime_B_Y label = Some (y, m) \<and> y \<le> 9999 \<and> 1 \<le> m \<and> m \<le> 12
           \<and> label = fmt_B m @ CHR '' '' # fmt_Y y" if "(label, st) \<in> set ms" for label st
    using monthly_totals_label_month [OF v] that unfolding ms_def by blast
  have "\<forall>(label, st)\<in>set ms. to_datetime_B_Y label \<noteq> None" using lab by fastforce
  then have f: "for_each
       (\<lambda>(month, st).
          (case to_datetime month of
             Inl e \<Rightarrow> Inl e
           | Inr month_date \<Rightarrow>
               Inr \<lparr>s_Month = strftime_Y_m month_date, s_Deposits = deposits st,
                    s_Spending = spending st, s_Net = net st,
                    s_Transaction_Count = transaction_count st\<rparr>)) ms = Inr (map E ms)"
    unfolding E_def by (rule for_each_to_datetime)
  have "ms \<noteq> []" using ne unfolding ms_def by (simp add: monthly_totals_eq_Nil)
  then show "export_monthly_summary ms = Inr (sort_key s_Month (map E ms))"
    unfolding export_monthly_summary_def f by (simp add: sort_values_def)
  show "map (\<lambda>r. (parse_Y_m (s_Month r),
               \<lparr>deposits = s_Deposits r, spending = s_Spending r, net = s_Net r,
                transaction_count = s_Transaction_Count r\<rparr>)) (map E ms) = month_keyed ms"
    unfolding month_keyed_def map_map
  proof (rule map_cong [OF refl])
    fix x assume x: "x \<in> set ms"
    obtain label st where xe: "x = (label, st)" by (cases x)
    from lab x xe obtain y m where t: "to_datetime_B_Y label = Some (y, m)"
      and b: "y \<le> 9999" "m \<le> 12" by blast
    have "parse_Y_m (strftime_Y_m (y, m)) = Some (y, m)"
      using b by (intro parse_Y_m_strftime) simp_all
    then show "((\<lambda>r. (parse_Y_m (s_Month r),
               \<lparr>deposits = s_Deposits r, spending = s_Spending r, net = s_Net r,
                transaction_count = s_Transaction_Count r\<rparr>)) \<circ> E) x
        = (case x of (label, st) \<Rightarrow> (to_datetime_B_Y label, st))"
      unfolding xe E_def by (simp add: t)
  qed
  have "inj_on to_datetime_B_Y (set (map fst ms))"
  proof (rule inj_onI)
    fix a b assume a: "a \<in> set (map fst ms)" and b: "b \<in> set (map fst ms)"
      and e: "to_datetime_B_Y a = to_datetime_B_Y b"
    from a obtain sa where "(a, sa) \<in> set ms" by auto
    from lab [OF this] obtain y m where ta: "to_datetime_B_Y a = Some (y, m)"
      and la: "a = fmt_B m @ CHR '' '' # fmt_Y y" by blast
    from b obtain sb where "(b, sb) \<in> set ms" by auto
    from lab [OF this] obtain y' m' where tb: "to_datetime_B_Y b = Some (y', m')"
      and lb: "b = fmt_B m' @ CHR '' '' # fmt_Y y'" by blast
    from e ta tb have "y = y'" "m = m'" by simp_all
    then show "a = b" using la lb by simp
  qed
  moreover have "distinct (map fst ms)" unfolding ms_def by (rule distinct_monthly_totals)
  ultimately have "distinct (map to_datetime_B_Y (map fst ms))"
    by (simp only: distinct_map [of to_datetime_B_Y "map fst ms"])
  moreover have "map fst (month_keyed ms) = map to_datetime_B_Y (map fst ms)"
    by (simp add: month_keyed_def case_prod_unfold)
  ultimately show "distinct (map fst (month_keyed ms))" by simp
  show "\<forall>r\<in>set (map E ms). \<exists>y m. y \<le> 9999 \<and> 1 \<le> m \<and> m \<le> 12
           \<and> s_Month r = strftime_Y_m (y, m)"
  proof
    fix r assume "r \<in> set (map E ms)"
    then obtain x where x: "x \<in> set ms" and r: "r = E x" by auto
    obtain label st where xe: "x = (label, st)" by (cases x)
    from lab x xe obtain y m where t: "to_datetime_B_Y label = Some (y, m)"
      and b: "y \<le> 9999" "1 \<le> m" "m \<le> 12" by blast
    have "s_Month r = strftime_Y_m (y, m)" unfolding r xe E_def by (simp add: t)
    then show "\<exists>y m. y \<le> 9999 \<and> 1 \<le> m \<and> m \<le> 12 \<and> s_Month r = strftime_Y_m (y, m)"
      using b by blast
  qed
qed
text \<open>
  C9.  For a non-empty set of posted records, exporting the monthly summary gives one row
  per month; reading the rows back (the month from its text, the four values as they
  stand) gives exactly the entries of the summary, month by month; every month is written
  as \<open>YYYY-MM\<close>; and the rows are in ascending order of that text, which is the
  chronological order of the months.
\<close>

theorem C9_summary_round_trip:
  "(\<forall>r\<in>set df. valid_date (Date r)) \<and> clean_data df \<noteq> [] \<longrightarrow>
     (\<exists>rows. export_monthly_summary (calculate_monthly_totals ops (clean_data df)) = Inr rows
        \<and> length rows = length (calculate_monthly_totals ops (clean_data df))
        \<and> set (reparse_summary rows) = set (month_keyed (calculate_monthly_totals ops (clean_data df)))
        \<and> map_of (reparse_summary rows)
            = map_of (month_keyed (calculate_monthly_totals ops (clean_data df)))
        \<and> distinct (map fst (reparse_summary rows))
        \<and> (\<forall>r\<in>set rows. \<exists>y m. 1 \<le> m \<and> m \<le> 12
               \<and> s_Month r = fmt_Y y @ ''-'' @ fmt_m m \<and> parse_Y_m (s_Month r) = Some (y, m))
        \<and> sorted (map s_Month rows)
        \<and> sorted (map (\<lambda>r. the (parse_Y_m (s_Month r))) rows))"
proof (intro impI, elim conjE)
  assume v: "\<forall>r\<in>set df. valid_date (Date r)" and ne: "clean_data df \<noteq> []"
  define ms where "ms = calculate_monthly_totals ops (clean_data df)"
  define E :: "string \<times> stats \<Rightarrow> summary_row"
    where "E = (\<lambda>(label, st). \<lparr>s_Month = strftime_Y_m (the (to_datetime_B_Y label)),
      s_Deposits = deposits st, s_Spending = spending st, s_Net = net st,
      s_Transaction_Count = transaction_count st\<rparr>)"
  define rows where "rows = sort_key s_Month (map E ms)"
  note x = export_summary_rows [OF v ne, of ops, folded ms_def E_def]
  have ex: "export_monthly_summary ms = Inr rows" unfolding rows_def by (rule x(1))
  have len: "length rows = length ms" by (simp add: rows_def)
  have sr: "set rows = set (map E ms)" by (simp add: rows_def)
  have "set (reparse_summary rows)
      = set (map (\<lambda>r. (parse_Y_m (s_Month r),
               \<lparr>deposits = s_Deposits r, spending = s_Spending r, net = s_Net r,
                transaction_count = s_Transaction_Count r\<rparr>)) (map E ms))"
    unfolding reparse_summary_def set_map sr ..
  then have st: "set (reparse_summary rows) = set (month_keyed ms)" unfolding x(2) .
  define R :: "summary_row \<Rightarrow> (nat \<times> nat) option \<times> stats"
    where "R = (\<lambda>r. (parse_Y_m (s_Month r),
               \<lparr>deposits = s_Deposits r, spending = s_Spending r, net = s_Net r,
                transaction_count = s_Transaction_Count r\<rparr>))"
  have k: "map R (map E ms) = month_keyed ms" unfolding R_def by (rule x(2))
  have "distinct (map fst (map R (map E ms)))" unfolding k by (rule x(3))
  then have "distinct (map (\<lambda>a. fst (R a)) (map E ms))" by (simp add: comp_def)
  then have "distinct (map (\<lambda>a. fst (R a)) (sort_key s_Month (map E ms)))"
    by (simp only: distinct_map_sort_key)
  moreover have "map fst (reparse_summary rows)
      = map (\<lambda>a. fst (R a)) (sort_key s_Month (map E ms))"
    unfolding reparse_summary_def rows_def R_def by simp
  ultimately have di: "distinct (map fst (reparse_summary rows))" by simp
  have mo: "map_of (reparse_summary rows) = map_of (month_keyed ms)"
    using map_of_inject_set [OF di x(3)] st by simp
  have form: "\<exists>y m. y \<le> 9999 \<and> 1 \<le> m \<and> m \<le> 12 \<and> s_Month r = strftime_Y_m (y, m)
      \<and> parse_Y_m (s_Month r) = Some (y, m)" if "r \<in> set rows" for r
  proof -
    from that x(4) sr obtain y m where b: "y \<le> 9999" "1 \<le> m" "m \<le> 12"
      and s: "s_Month r = strftime_Y_m (y, m)" by blast
    have "parse_Y_m (strftime_Y_m (y, m)) = Some (y, m)"
      using b by (intro parse_Y_m_strftime) simp_all
    then show ?thesis using b s by auto
  qed
  have f1: "\<forall>r\<in>set rows. \<exists>y m. 1 \<le> m \<and> m \<le> 12
               \<and> s_Month r = fmt_Y y @ ''-'' @ fmt_m m \<and> parse_Y_m (s_Month r) = Some (y, m)"
  proof
    fix r assume "r \<in> set rows"
    from form [OF this] obtain y m where "1 \<le> m" "m \<le> 12"
      "s_Month r = strftime_Y_m (y, m)" "parse_Y_m (s_Month r) = Some (y, m)" by blast
    then show "\<exists>y m. 1 \<le> m \<and> m \<le> 12
               \<and> s_Month r = fmt_Y y @ ''-'' @ fmt_m m \<and> parse_Y_m (s_Month r) = Some (y, m)"
      unfolding strftime_Y_m_def by auto
  qed
  have so: "sorted (map s_Month rows)" unfolding rows_def by (rule sorted_sort_key)
  have "sorted_wrt (\<lambda>a b. s_Month a \<le> s_Month b) rows" using so by (simp add: sorted_wrt_map)
  then have "sorted_wrt (\<lambda>a b. the (parse_Y_m (s_Month a)) \<le> the (parse_Y_m (s_Month b))) rows"
  proof (rule sorted_wrt_mono_rel [rotated])
    fix a b assume a: "a \<in> set rows" and b: "b \<in> set rows" and le: "s_Month a \<le> s_Month b"
    from form [OF a] obtain y1 m1 where a1: "y1 \<le> 9999" "m1 \<le> 12"
      "s_Month a = strftime_Y_m (y1, m1)" "parse_Y_m (s_Month a) = Some (y1, m1)" by blast
    from form [OF b] obtain y2 m2 where b1: "y2 \<le> 9999" "m2 \<le> 12"
      "s_Month b = strftime_Y_m (y2, m2)" "parse_Y_m (s_Month b) = Some (y2, m2)" by blast
    have "strftime_Y_m (y1, m1) \<le> strftime_Y_m (y2, m2) \<longleftrightarrow> (y1, m1) \<le> (y2, m2)"
      using a1 b1 by (intro strftime_Y_m_le) simp_all
    then show "the (parse_Y_m (s_Month a)) \<le> the (parse_Y_m (s_Month b))"
      using le a1 b1 by simp
  qed
  then have ch: "sorted (map (\<lambda>r. the (parse_Y_m (s_Month r))) rows)"
    by (simp add: sorted_wrt_map)
  from ex len st mo di f1 so ch
  show "\<exists>rows. export_monthly_summary (calculate_monthly_totals ops (clean_data df)) = Inr rows
        \<and> length rows = length (calculate_monthly_totals ops (clean_data df))
        \<and> set (reparse_summary rows) = set (month_keyed (calculate_monthly_totals ops (clean_data df)))
        \<and> map_of (reparse_summary rows)
            = map_of (month_keyed (calculate_monthly_totals ops (clean_data df)))
        \<and> distinct (map fst (reparse_summary rows))
        \<and> (\<forall>r\<in>set rows. \<exists>y m. 1 \<le> m \<and> m \<le> 12
               \<and> s_Month r = fmt_Y y @ ''-'' @ fmt_m m \<and> parse_Y_m (s_Month r) = Some (y, m))
        \<and> sorted (map s_Month rows)
        \<and> sorted (map (\<lambda>r. the (parse_Y_m (s_Month r))) rows)"
    unfolding ms_def by blast
qed

lemma ex_two_export:
  "export_monthly_summary (calculate_monthly_totals exact (clean_data ex_two)) = Inr ex_two_rows"
  by code_simp

lemma ex_two_labels:
  "map fst (calculate_monthly_totals exact (clean_data ex_two)) = [''January 2025'', ''March 2024'']"
  by code_simp

lemma ex_two_valid: "list_all (\<lambda>r. valid_date (Date r)) ex_two"
  by code_simp

lemma ex_two_posted: "clean_data ex_two \<noteq> []"
  by code_simp

theorem C9_summary_round_trip_witness:
  "list_all (\<lambda>r. valid_date (Date r)) ex_two
   \<and> clean_data ex_two \<noteq> []
   \<and> map fst (calculate_monthly_totals exact (clean_data ex_two))
       = [''January 2025'', ''March 2024'']
   \<and> export_monthly_summary (calculate_monthly_totals exact (clean_data ex_two)) = Inr ex_two_rows
   \<and> map s_Month ex_two_rows = [''2024-03'', ''2025-01'']
   \<and> map_of (reparse_summary ex_two_rows)
       = map_of (month_keyed (calculate_monthly_totals exact (clean_data ex_two)))
   \<and> sorted (map s_Month ex_two_rows)
   \<and> sorted (map (\<lambda>r. the (parse_Y_m (s_Month r))) ex_two_rows)"
proof -
  have v: "\<forall>r\<in>set ex_two. valid_date (Date r)" using ex_two_valid by (simp add: list_all_iff)
  from C9_summary_round_trip [of ex_two exact] v ex_two_posted
  obtain rows where e: "export_monthly_summary (calculate_monthly_totals exact (clean_data ex_two))
        = Inr rows"
    and m: "map_of (reparse_summary rows)
            = map_of (month_keyed (calculate_monthly_totals exact (clean_data ex_two)))"
    and s: "sorted (map s_Month rows)"
    and c: "sorted (map (\<lambda>r. the (parse_Y_m (s_Month r))) rows)"
    by blast
  from e have r: "rows = ex_two_rows" by (simp add: ex_two_export)
  have l: "map s_Month ex_two_rows = [''2024-03'', ''2025-01'']" by (simp add: ex_two_rows_def)
  from m s c show ?thesis
    unfolding r using ex_two_valid ex_two_posted ex_two_labels ex_two_export l by blast
qed

end
